theory Spec2Isabelle
  imports Main "HOL-Library.Log_Nat"
begin

section \<open>Go library functions used by the pipeline\<close>

text \<open>
  Go strings and byte slices are sequences of bytes; both are modelled as \<open>string\<close>
  (a list of 8-bit characters). The functions below follow the documented behaviour of
  the Go standard library on a Unix host (path separator \<open>/\<close>).
  \<open>strings.ToLower\<close> is modelled on ASCII letters; other bytes are left unchanged.
\<close>

type_synonym bytes = string

definition to_lower_char :: "char \<Rightarrow> char" where
  "to_lower_char c =
     (let n = (of_char c :: nat) in if 65 \<le> n \<and> n \<le> 90 then char_of (n + 32) else c)"

definition strings_ToLower :: "string \<Rightarrow> string" where
  "strings_ToLower s = map to_lower_char s"

definition strings_HasPrefix :: "string \<Rightarrow> string \<Rightarrow> bool" where
  "strings_HasPrefix s p = (take (length p) s = p)"

fun strings_Contains :: "string \<Rightarrow> string \<Rightarrow> bool" where
  "strings_Contains [] sub = (sub = [])"
| "strings_Contains (c # cs) sub = (strings_HasPrefix (c # cs) sub \<or> strings_Contains cs sub)"

text \<open>\<open>filepath.Ext\<close>: scan backwards from the end of the path up to the last
  separator; the extension starts at the last dot of the last element.\<close>

fun ext_scan :: "string \<Rightarrow> string \<Rightarrow> string" where
  "ext_scan [] acc = []"
| "ext_scan (c # cs) acc =
     (if c = CHR ''/'' then []
      else if c = CHR ''.'' then c # acc
      else ext_scan cs (c # acc))"

definition filepath_Ext :: "string \<Rightarrow> string" where
  "filepath_Ext path = ext_scan (rev path) []"

text \<open>\<open>filepath.Base\<close>: the last element of the path, after removing trailing
  separators; \<open>.\<close> for the empty path and \<open>/\<close> for a path of separators only.\<close>

definition filepath_Base :: "string \<Rightarrow> string" where
  "filepath_Base path =
     (if path = [] then ''.''
      else let p = rev (dropWhile (\<lambda>c. c = CHR ''/'') (rev path));
               b = rev (takeWhile (\<lambda>c. c \<noteq> CHR ''/'') (rev p))
           in if b = [] then ''/'' else b)"

text \<open>\<open>strings.Split(s, sep)\<close> for a one-byte separator.\<close>

fun strings_Split :: "string \<Rightarrow> char \<Rightarrow> string list" where
  "strings_Split [] sep = [[]]"
| "strings_Split (c # cs) sep =
     (if c = sep then [] # strings_Split cs sep
      else (case strings_Split cs sep of
              [] \<Rightarrow> [[c]]
            | w # ws \<Rightarrow> (c # w) # ws))"

text \<open>Decimal rendering of \<open>%d\<close>.\<close>

definition digit_char :: "nat \<Rightarrow> char" where
  "digit_char d = char_of (48 + d)"

fun show_nat :: "nat \<Rightarrow> string" where
  "show_nat n = (if n < 10 then [digit_char n] else show_nat (n div 10) @ [digit_char (n mod 10)])"

declare show_nat.simps [simp del]

definition show_int :: "int \<Rightarrow> string" where
  "show_int i = (if i < 0 then CHR ''-'' # show_nat (nat (- i)) else show_nat (nat i))"

section \<open>PSD layer records (package scanner)\<close>

record DetailedLayer =
  ID :: int
  Name :: string
  Position :: "int \<times> int \<times> int \<times> int"
  BlendMode :: string
  Opacity :: nat
  Visible :: bool
  ContentHash :: string
  LayerType :: string

text \<open>What \<open>parseIndividualLayer\<close> reads from the file for one layer record, in the
  order of its \<open>binary.Read\<close> calls: the bounds and channel count, the blend mode
  signature and key, the four flag bytes, the length of the extra data, and the outcome of
  \<open>extractLayerNameFromExtraData\<close> (\<open>None\<close> when it returns an error).\<close>

record layer_record_input =
  Top :: int
  Left :: int
  Bottom :: int
  Right :: int
  Channels :: nat
  blendModeSignature :: string
  blendModeKey :: string
  layerFlags :: "nat \<times> nat \<times> nat \<times> nat"
  extraDataLength :: nat
  extractedName :: "string option"

definition mapBlendMode :: "string \<Rightarrow> string" where
  "mapBlendMode k =
     (case map_of
        [(''norm'', ''normal''), (''dark'', ''darken''), (''lite'', ''lighten''),
         (''hue '', ''hue''), (''sat '', ''saturation''), (''colr'', ''color''),
         (''lum '', ''luminosity''), (''mul '', ''multiply''), (''scrn'', ''screen''),
         (''over'', ''overlay''), (''sLit'', ''soft light''), (''hLit'', ''hard light''),
         (''diff'', ''difference''), (''smud'', ''exclusion'')] k of
        Some readable \<Rightarrow> readable
      | None \<Rightarrow> ''normal'')"

definition determineLayerType :: "string \<Rightarrow> string \<Rightarrow> string" where
  "determineLayerType layerName blendMode =
     (let layerNameLower = strings_ToLower layerName in
      if strings_Contains layerNameLower ''text'' \<or> strings_Contains layerNameLower ''txt''
        then ''text''
      else if strings_Contains layerNameLower ''adjustment'' \<or> strings_Contains layerNameLower ''adj''
        then ''adjustment''
      else if layerNameLower = ''background'' \<or> strings_Contains layerNameLower ''bg''
        then ''background''
      else if blendMode \<noteq> ''normal'' then ''effect''
      else ''normal'')"

text \<open>\<open>parseIndividualLayer\<close>, after its reads have succeeded. The content hash is
  computed by \<open>generateLayerContentHash\<close>, a SHA-256 of path, index, name and
  modification time; it is passed in as \<open>hash\<close>. Note the two different arguments:
  \<open>BlendMode\<close> receives the mapped name, \<open>determineLayerType\<close> the raw four-byte key.\<close>

definition parseIndividualLayer ::
  "(string \<Rightarrow> nat \<Rightarrow> string \<Rightarrow> string) \<Rightarrow> layer_record_input \<Rightarrow> nat \<Rightarrow> string \<Rightarrow> DetailedLayer" where
  "parseIndividualLayer hash inp layerIndex filePath =
     (let (flag0, flag1, flag2, flag3) = layerFlags inp;
          opacity = flag0;
          visible = \<not> odd (flag2 div 2);
          blendMode = blendModeKey inp;
          readableBlendMode = mapBlendMode blendMode;
          defaultName = ''Layer '' @ show_nat (layerIndex + 1);
          layerName =
            (if extraDataLength inp > 0 then
               (case extractedName inp of
                  Some n \<Rightarrow> if n \<noteq> [] then n else defaultName
                | None \<Rightarrow> defaultName)
             else defaultName);
          contentHash = hash filePath layerIndex layerName;
          layerType = determineLayerType layerName blendMode
      in \<lparr> ID = int layerIndex, Name = layerName,
           Position = (Top inp, Left inp, Bottom inp, Right inp),
           BlendMode = readableBlendMode, Opacity = opacity, Visible = visible,
           ContentHash = contentHash, LayerType = layerType \<rparr>)"

text \<open>A layer record as it is stored for a layer named \<open>Shape 1\<close> with blend mode key
  \<open>norm\<close>, full opacity, visible.\<close>

definition shape_layer :: layer_record_input where
  "shape_layer = \<lparr> Top = 0, Left = 0, Bottom = 100, Right = 100, Channels = 4,
     blendModeSignature = ''8BIM'', blendModeKey = ''norm'', layerFlags = (255, 0, 8, 0),
     extraDataLength = 16, extractedName = Some ''Shape 1'' \<rparr>"

section \<open>File identity fingerprint (package staging)\<close>

definition LargeFileSize :: nat where
  "LargeFileSize = 500 * 1024 * 1024"

definition HashSampleSize :: nat where
  "HashSampleSize = 64 * 1024"

text \<open>An open file is its contents and the current offset. \<open>file_Read\<close> fills a
  buffer of \<open>n\<close> bytes from the offset and returns the bytes read with the new offset;
  a seek that would move before the start of the file fails and leaves the offset.\<close>

definition file_Read :: "bytes \<Rightarrow> nat \<Rightarrow> nat \<Rightarrow> bytes \<times> nat" where
  "file_Read content pos n = (let b = take n (drop pos content) in (b, pos + length b))"

definition file_Seek_start :: "int \<Rightarrow> nat \<Rightarrow> nat" where
  "file_Seek_start off pos = (if off < 0 then pos else nat off)"

definition file_Seek_end :: "bytes \<Rightarrow> int \<Rightarrow> nat \<Rightarrow> nat" where
  "file_Seek_end content off pos =
     (if int (length content) + off < 0 then pos else nat (int (length content) + off))"

text \<open>\<open>generateFileHash\<close>. \<open>file\<close> is the outcome of \<open>os.Open\<close>: the contents
  and the modification time in Unix seconds, or \<open>None\<close>; \<open>stat_ok\<close> tells whether
  \<open>file.Stat\<close> succeeds. The hasher is fed a sequence of writes; \<open>sha256_hex\<close> stands
  for SHA-256 followed by \<open>hex.EncodeToString\<close>, applied to everything written.\<close>

definition generateFileHash ::
  "(bytes \<Rightarrow> string) \<Rightarrow> string \<Rightarrow> (bytes \<times> int) option \<Rightarrow> bool \<Rightarrow> string + string" where
  "generateFileHash sha256_hex path file stat_ok =
     (case file of
        None \<Rightarrow> Inl ''failed to open file for hashing''
      | Some (content, modtime) \<Rightarrow>
          if stat_ok then
            let size = length content;
                h0 = ''path:'' @ path @ '':size:'' @ show_nat size @ '':modtime:''
                       @ show_int modtime @ '':''
            in
            if size > LargeFileSize then
              let (b1, p1) = file_Read content 0 HashSampleSize;
                  h1 = h0 @ b1;
                  (h2, p2) =
                    (if size > 128 * 1024 then
                       let p = file_Seek_start (int size div 2) p1;
                           (b, p') = file_Read content p 4096
                       in (h1 @ b, p')
                     else (h1, p1));
                  (h3, p3) =
                    (if size > 128 * 1024 then
                       let p = file_Seek_end content (- int HashSampleSize) p2;
                           (b, p') = file_Read content p HashSampleSize
                       in (h2 @ b, p')
                     else (h2, p2))
              in Inr (sha256_hex h3)
            else if size > 10 * 1024 * 1024 then
              let (b1, p1) = file_Read content 0 (32 * 1024);
                  h1 = h0 @ b1;
                  (h2, p2) =
                    (if size > 64 * 1024 then
                       let p = file_Seek_end content (- (32 * 1024)) p1;
                           (b, p') = file_Read content p (32 * 1024)
                       in (h1 @ b, p')
                     else (h1, p1))
              in Inr (sha256_hex h2)
            else
              let (b, p) = file_Read content 0 size
              in Inr (sha256_hex (h0 @ b))
          else Inr (sha256_hex path))"

text \<open>The samples as the specification words them.\<close>

definition MiB :: nat where "MiB = 1024 * 1024"

definition KiB :: nat where "KiB = 1024"

definition fingerprint_samples :: "bytes \<Rightarrow> bytes" where
  "fingerprint_samples content =
     (let size = length content in
      if size \<le> 10 * MiB then content
      else if size \<le> 500 * MiB then take (32 * KiB) content @ drop (size - 32 * KiB) content
      else take (64 * KiB) content @ take (4 * KiB) (drop (size div 2) content)
             @ drop (size - 64 * KiB) content)"

section \<open>Go float64 arithmetic\<close>

text \<open>
  A finite \<open>float64\<close> is modelled by the rational it denotes. \<open>f64_round\<close> rounds a
  rational to the nearest number with a 53-bit significand, ties to even: the rounding of
  a conversion from \<open>int64\<close>, of a division and of a decimal constant. Overflow and
  subnormal numbers are left out: the values here are quotients of 64-bit integers.
\<close>

definition rne :: "rat \<Rightarrow> int" where
  "rne x =
     (let f = \<lfloor>x\<rfloor>; r = x - of_int f in
      if r < 1 / 2 then f
      else if 1 / 2 < r then f + 1
      else if even f then f else f + 1)"

definition f64_exponent :: "rat \<Rightarrow> int" where
  "f64_exponent x = (if 1 \<le> x then bitlen \<lfloor>x\<rfloor> - 1 else - bitlen (\<lceil>1 / x\<rceil> - 1))"

definition f64_round :: "rat \<Rightarrow> rat" where
  "f64_round x =
     (if x = 0 then 0
      else let e = f64_exponent \<bar>x\<bar>; u = 2 powi (e - 52)
           in sgn x * of_int (rne (\<bar>x\<bar> / u)) * u)"

datatype f64 = Finite rat | PosInf | NegInf | NaN

definition float64 :: "int \<Rightarrow> f64" where
  "float64 i = Finite (f64_round (of_int i))"

definition f64_const :: "rat \<Rightarrow> f64" where
  "f64_const q = Finite (f64_round q)"

fun f64_div :: "f64 \<Rightarrow> f64 \<Rightarrow> f64" where
  "f64_div (Finite a) (Finite b) =
     (if b = 0 then (if a = 0 then NaN else if 0 < a then PosInf else NegInf)
      else Finite (f64_round (a / b)))"
| "f64_div NaN y = NaN"
| "f64_div x NaN = NaN"
| "f64_div (Finite a) y = Finite 0"
| "f64_div PosInf (Finite b) = (if 0 \<le> b then PosInf else NegInf)"
| "f64_div NegInf (Finite b) = (if 0 \<le> b then NegInf else PosInf)"
| "f64_div x y = NaN"

fun f64_less :: "f64 \<Rightarrow> f64 \<Rightarrow> bool" where
  "f64_less NaN y = False"
| "f64_less x NaN = False"
| "f64_less (Finite a) (Finite b) = (a < b)"
| "f64_less (Finite a) PosInf = True"
| "f64_less NegInf (Finite b) = True"
| "f64_less NegInf PosInf = True"
| "f64_less x y = False"

fun f64_le :: "f64 \<Rightarrow> f64 \<Rightarrow> bool" where
  "f64_le NaN y = False"
| "f64_le x NaN = False"
| "f64_le (Finite a) (Finite b) = (a \<le> b)"
| "f64_le (Finite a) PosInf = True"
| "f64_le (Finite a) NegInf = False"
| "f64_le NegInf y = True"
| "f64_le PosInf PosInf = True"
| "f64_le PosInf y = False"

section \<open>The repository on disk\<close>

text \<open>
  A path below \<open>.dgit/\<close> is a directory and a file name. The file names the
  pipeline formats with \<open>fmt.Sprintf\<close> are kept symbolic: \<open>Lz4Name n\<close> is
  \<open>v<n>.lz4\<close>, \<open>OptimizedZstdName n\<close> is \<open>v<n>_optimized.zstd\<close>,
  \<open>ZipName n\<close> is \<open>v<n>.zip\<close>, \<open>BsdiffName n m\<close> is
  \<open>v<n>_from_v<m>.bsdiff\<close>, \<open>PsdSmartName n m\<close> is
  \<open>v<n>_from_v<m>.psd_smart\<close> and \<open>TempLz4Name n\<close> is \<open>temp_v<n>.lz4\<close>.
  \<open>DeltaDir\<close> is \<open>objects/deltas\<close>. Version numbers are never negative.
\<close>

datatype dir = VersionsDir | CacheDir | ObjectsDir | DeltaDir

datatype fname =
    Lz4Name nat
  | OptimizedZstdName nat
  | ZipName nat
  | BsdiffName nat nat
  | PsdSmartName nat nat
  | TempLz4Name nat

type_synonym path = "dir \<times> fname"

text \<open>The manifest of a smart-delta file (the layer analysis it also carries is only
  printed on restore and is left out).\<close>

record smart_manifest =
  from_version :: nat
  to_version :: nat
  file_path :: string
  original_size :: int

text \<open>
  What a stored file holds. The compression libraries are not modelled: an LZ4 or Zstd
  frame is the stream it decompresses to, a smart-delta file is its manifest and the
  payload inside its LZ4 frame, a binary patch is the pair of inputs of
  \<open>binarydist.Diff\<close>.
\<close>

datatype content =
    LZ4Frame bytes
  | ZstdFrame bytes
  | ZipArchive "(string \<times> bytes) list"
  | SmartDeltaFile smart_manifest bytes
  | BsdiffPatch content content
  | RawBytes bytes

type_synonym filesystem = "path \<Rightarrow> content option"

definition fileExists :: "filesystem \<Rightarrow> path \<Rightarrow> bool" where
  "fileExists fs p = (fs p \<noteq> None)"

section \<open>Commit records and the commit manager (package commit)\<close>

record StagedFile =
  Path :: string
  AbsolutePath :: string
  FileType :: string
  Size :: int
  ModTime :: int

record CompressionResult =
  Strategy :: string
  OutputFile :: fname
  OriginalSize :: int
  CompressedSize :: int
  CompressionRatio :: f64
  BaseVersion :: nat
  CacheLevel :: string

text \<open>\<open>Metadata\<close> holds the keys of the metadata map, the relative paths.\<close>

record Commit =
  Hash :: string
  Message :: string
  FilesCount :: nat
  Version :: nat
  Metadata :: "string list"
  ParentHash :: string
  SnapshotZip :: "fname option"
  CompressionInfo :: "CompressionResult option"

record CommitManager =
  MaxDeltaChainLength :: nat

definition NewCommitManager :: CommitManager where
  "NewCommitManager = \<lparr> MaxDeltaChainLength = 5 \<rparr>"

record repo =
  storage :: filesystem
  commits_dir :: "(nat \<times> Commit) list"
  HEAD :: string

definition empty_repo :: repo where
  "empty_repo = \<lparr> storage = (\<lambda>p. None), commits_dir = [], HEAD = [] \<rparr>"

text \<open>
  The world outside the repository during one commit: \<open>read_file\<close> is
  \<open>os.Open\<close> and \<open>io.ReadAll\<close> on an absolute path (\<open>None\<close> when either fails),
  \<open>stat_size\<close> the size \<open>os.Stat\<close> reports for a stored file,
  \<open>psd_info_ok\<close> whether \<open>GetDetailedPSDInfo\<close> parses a PSD with these bytes,
  \<open>previous_layers_ok\<close> whether the previous PSD can be extracted from the base
  artifact and parsed, \<open>new_hash\<close> the commit hash.
\<close>

record env =
  read_file :: "string \<Rightarrow> bytes option"
  stat_size :: "content \<Rightarrow> int"
  psd_info_ok :: "bytes \<Rightarrow> bool"
  previous_layers_ok :: bool
  new_hash :: string

subsection \<open>Strategy selection\<close>

definition SmallFileThreshold :: int where
  "SmallFileThreshold = 50 * 1024 * 1024"

fun shouldUseLZ4_loop :: "StagedFile list \<Rightarrow> bool" where
  "shouldUseLZ4_loop [] = True"
| "shouldUseLZ4_loop (file # files) =
     (if Size file > SmallFileThreshold then False
      else let ext = strings_ToLower (filepath_Ext (Path file)) in
           if ext = ''.psd'' \<or> ext = ''.ai'' \<or> ext = ''.sketch'' then False
           else shouldUseLZ4_loop files)"

definition shouldUseLZ4 :: "StagedFile list \<Rightarrow> nat \<Rightarrow> bool" where
  "shouldUseLZ4 files version = (if version = 1 then True else shouldUseLZ4_loop files)"

fun selectDeltaAlgorithm :: "StagedFile list \<Rightarrow> string" where
  "selectDeltaAlgorithm [] = ''bsdiff''"
| "selectDeltaAlgorithm (f # files) =
     (if strings_ToLower (filepath_Ext (Path f)) = ''.psd'' then ''psd_smart''
      else selectDeltaAlgorithm files)"

fun getDeltaChainLength :: "filesystem \<Rightarrow> nat \<Rightarrow> nat" where
  "getDeltaChainLength fs 0 = 0"
| "getDeltaChainLength fs (Suc v) =
     (if fileExists fs (ObjectsDir, ZipName (Suc v)) then 0
      else Suc (getDeltaChainLength fs v))"

definition shouldCreateNewSnapshot :: "CommitManager \<Rightarrow> filesystem \<Rightarrow> nat \<Rightarrow> bool" where
  "shouldCreateNewSnapshot cm fs ver = (getDeltaChainLength fs ver \<ge> MaxDeltaChainLength cm)"

subsection \<open>The LZ4 container\<close>

definition file_header :: "string \<Rightarrow> nat \<Rightarrow> bytes" where
  "file_header path actualSize = ''FILE:'' @ path @ '':'' @ show_nat actualSize @ [CHR 0x0A]"

text \<open>The loop of \<open>compressWithLZ4\<close> over the staged files: \<open>out\<close> is what has been
  written through the LZ4 writer so far. A file that cannot be opened or read is left
  out with a warning.\<close>

fun write_files :: "env \<Rightarrow> StagedFile list \<Rightarrow> bytes \<times> int \<Rightarrow> bytes \<times> int" where
  "write_files e [] acc = acc"
| "write_files e (file # files) (out, originalSize) =
     (case read_file e (AbsolutePath file) of
        None \<Rightarrow> write_files e files (out, originalSize)
      | Some fileContent \<Rightarrow>
          let actualSize = length fileContent
          in write_files e files
               (out @ file_header (Path file) actualSize @ fileContent,
                originalSize + int actualSize))"

definition compressWithLZ4 ::
  "env \<Rightarrow> filesystem \<Rightarrow> StagedFile list \<Rightarrow> nat \<Rightarrow> (string + CompressionResult) \<times> filesystem" where
  "compressWithLZ4 e fs files version =
     (let versionPath = (VersionsDir, Lz4Name version);
          (stream, originalSize) = write_files e files ([], 0);
          fs1 = fs(versionPath \<mapsto> LZ4Frame stream);
          compressedSize = stat_size e (LZ4Frame stream)
      in if originalSize = 0 then (Inl ''no data to compress'', fs1(versionPath := None))
         else
           let compressionRatio = f64_div (float64 compressedSize) (float64 originalSize)
           in if f64_less (f64_const (12 / 10)) compressionRatio
              then (Inl ''compression failed: file became larger'', fs1(versionPath := None))
              else if compressedSize = 0
              then (Inl ''compression failed: output file is empty'', fs1(versionPath := None))
              else (Inr \<lparr> Strategy = ''lz4'', OutputFile = Lz4Name version,
                          OriginalSize = originalSize, CompressedSize = compressedSize,
                          CompressionRatio = compressionRatio, BaseVersion = 0,
                          CacheLevel = ''versions'' \<rparr>, fs1))"

subsection \<open>Delta artifacts\<close>

definition findVersionInStorage :: "filesystem \<Rightarrow> nat \<Rightarrow> path option" where
  "findVersionInStorage fs version =
     (if fileExists fs (VersionsDir, Lz4Name version) then Some (VersionsDir, Lz4Name version)
      else if fileExists fs (CacheDir, Lz4Name version) then Some (CacheDir, Lz4Name version)
      else if fileExists fs (CacheDir, OptimizedZstdName version)
        then Some (CacheDir, OptimizedZstdName version)
      else if fileExists fs (ObjectsDir, ZipName version) then Some (ObjectsDir, ZipName version)
      else None)"

text \<open>\<open>openStoredFile\<close>: a reader that decompresses an LZ4 or Zstd file and passes any
  other file through.\<close>

definition openStoredFile :: "filesystem \<Rightarrow> path \<Rightarrow> content option" where
  "openStoredFile fs p =
     (case fs p of
        None \<Rightarrow> None
      | Some (LZ4Frame s) \<Rightarrow> Some (RawBytes s)
      | Some (ZstdFrame s) \<Rightarrow> Some (RawBytes s)
      | Some c \<Rightarrow> Some c)"

definition createTempLZ4File :: "env \<Rightarrow> StagedFile list \<Rightarrow> content" where
  "createTempLZ4File e files = LZ4Frame (fst (write_files e files ([], 0)))"

definition calculateCompressionResult ::
  "env \<Rightarrow> filesystem \<Rightarrow> string \<Rightarrow> path \<Rightarrow> StagedFile list \<Rightarrow> nat \<Rightarrow> string + CompressionResult" where
  "calculateCompressionResult e fs strategy outputFile files baseVersion =
     (let originalSize = sum_list (map Size files) in
      case fs outputFile of
        None \<Rightarrow> Inl ''stat failed''
      | Some c \<Rightarrow>
          let compressedSize = stat_size e c
          in Inr \<lparr> Strategy = strategy, OutputFile = snd outputFile,
                    OriginalSize = originalSize, CompressedSize = compressedSize,
                    CompressionRatio = f64_div (float64 compressedSize) (float64 originalSize),
                    BaseVersion = baseVersion, CacheLevel = ''cache'' \<rparr>)"

text \<open>\<open>createBsdiffDelta\<close>. The temporary container is removed on every return
  (\<open>defer os.Remove(tempCurrent)\<close>).\<close>

definition createBsdiffDelta ::
  "env \<Rightarrow> filesystem \<Rightarrow> StagedFile list \<Rightarrow> nat \<Rightarrow> nat \<Rightarrow> (string + CompressionResult) \<times> filesystem" where
  "createBsdiffDelta e fs files version baseVersion =
     (let tempCurrent = (CacheDir, TempLz4Name version);
          fs1 = fs(tempCurrent \<mapsto> createTempLZ4File e files)
      in case findVersionInStorage fs1 baseVersion of
           None \<Rightarrow> (Inl ''base not found'', fs1(tempCurrent := None))
         | Some basePath \<Rightarrow>
             let deltaPath = (CacheDir, BsdiffName version baseVersion)
             in (case openStoredFile fs1 basePath of
                   None \<Rightarrow> (Inl ''open failed'', fs1(tempCurrent := None))
                 | Some baseFile \<Rightarrow>
                     let fs2 = fs1(deltaPath \<mapsto> BsdiffPatch baseFile (createTempLZ4File e files))
                     in (calculateCompressionResult e fs2 ''bsdiff'' deltaPath files baseVersion,
                         fs2(tempCurrent := None))))"

definition fallbackToBinaryDelta ::
  "env \<Rightarrow> filesystem \<Rightarrow> StagedFile list \<Rightarrow> nat \<Rightarrow> nat \<Rightarrow> (string + CompressionResult) \<times> filesystem" where
  "fallbackToBinaryDelta e fs files version baseVersion =
     createBsdiffDelta e fs files version baseVersion"

text \<open>\<open>extractPreviousVersionLayers\<close>: the base version must have an artifact in
  storage; extracting the PSD from it and parsing it is the environment's
  \<open>previous_layers_ok\<close>.\<close>

definition extractPreviousVersionLayers :: "env \<Rightarrow> filesystem \<Rightarrow> nat \<Rightarrow> bool" where
  "extractPreviousVersionLayers e fs baseVersion =
     (case findVersionInStorage fs baseVersion of
        None \<Rightarrow> False
      | Some basePath \<Rightarrow> previous_layers_ok e)"

text \<open>\<open>createSmartDeltaFile\<close>: the manifest, then the whole new PSD through LZ4.\<close>

definition createSmartDeltaFile ::
  "env \<Rightarrow> filesystem \<Rightarrow> path \<Rightarrow> StagedFile \<Rightarrow> nat \<Rightarrow> nat \<Rightarrow> (string + int) \<times> filesystem" where
  "createSmartDeltaFile e fs deltaPath psdFile baseVersion version =
     (let deltaMetadata = \<lparr> from_version = baseVersion, to_version = version,
                              file_path = Path psdFile, original_size = Size psdFile \<rparr>
      in case read_file e (AbsolutePath psdFile) of
           None \<Rightarrow> (Inl ''read failed'', fs(deltaPath \<mapsto> SmartDeltaFile deltaMetadata []))
         | Some originalData \<Rightarrow>
             let c = SmartDeltaFile deltaMetadata originalData
             in (Inr (stat_size e c), fs(deltaPath \<mapsto> c)))"

definition createPSDSmartDelta ::
  "env \<Rightarrow> filesystem \<Rightarrow> StagedFile list \<Rightarrow> nat \<Rightarrow> nat \<Rightarrow> (string + CompressionResult) \<times> filesystem" where
  "createPSDSmartDelta e fs files version baseVersion =
     (case find (\<lambda>f. strings_ToLower (filepath_Ext (Path f)) = ''.psd'') files of
        None \<Rightarrow> (Inl ''no PSD file found'', fs)
      | Some psdFile \<Rightarrow>
          let currentLayers_ok =
                (case read_file e (AbsolutePath psdFile) of
                   None \<Rightarrow> False
                 | Some c \<Rightarrow> psd_info_ok e c)
          in if \<not> currentLayers_ok then fallbackToBinaryDelta e fs files version baseVersion
             else if \<not> extractPreviousVersionLayers e fs baseVersion
               then fallbackToBinaryDelta e fs files version baseVersion
             else
               let deltaPath = (CacheDir, PsdSmartName version baseVersion)
               in (case createSmartDeltaFile e fs deltaPath psdFile baseVersion version of
                     (Inl err, fs1) \<Rightarrow> (Inl ''failed to create smart delta file'', fs1)
                   | (Inr deltaSize, fs1) \<Rightarrow>
                       (Inr \<lparr> Strategy = ''psd_smart'', OutputFile = snd deltaPath,
                               OriginalSize = Size psdFile, CompressedSize = deltaSize,
                               CompressionRatio = f64_div (float64 deltaSize) (float64 (Size psdFile)),
                               BaseVersion = baseVersion, CacheLevel = ''cache'' \<rparr>, fs1)))"

definition createDelta ::
  "env \<Rightarrow> filesystem \<Rightarrow> StagedFile list \<Rightarrow> nat \<Rightarrow> nat \<Rightarrow> (string + CompressionResult) \<times> filesystem" where
  "createDelta e fs files version baseVersion =
     (let algorithm = selectDeltaAlgorithm files
      in if algorithm = ''psd_smart'' then createPSDSmartDelta e fs files version baseVersion
         else if algorithm = ''bsdiff'' then createBsdiffDelta e fs files version baseVersion
         else (Inl ''no suitable delta algorithm'', fs))"

subsection \<open>Snapshot creation and the commit\<close>

text \<open>\<open>createSnapshot\<close>. After a delta that is not kept, the clean-up removes the
  file named \<open>OutputFile\<close> in \<open>DeltaDir\<close>.\<close>

definition createSnapshot ::
  "env \<Rightarrow> CommitManager \<Rightarrow> filesystem \<Rightarrow> StagedFile list \<Rightarrow> nat \<Rightarrow> nat
     \<Rightarrow> (string + CompressionResult) \<times> filesystem" where
  "createSnapshot e cm fs files version prevVersion =
     (if shouldUseLZ4 files version then compressWithLZ4 e fs files version
      else if version > 1 \<and> \<not> shouldCreateNewSnapshot cm fs prevVersion then
        (case createDelta e fs files version prevVersion of
           (Inr deltaResult, fs1) \<Rightarrow>
             if f64_le (CompressionRatio deltaResult) (f64_const (7 / 10))
             then (Inr deltaResult, fs1)
             else compressWithLZ4 e (fs1((DeltaDir, OutputFile deltaResult) := None)) files version
         | (Inl err, fs1) \<Rightarrow> compressWithLZ4 e fs1 files version)
      else compressWithLZ4 e fs files version)"

fun max_version :: "(nat \<times> Commit) list \<Rightarrow> nat \<Rightarrow> nat" where
  "max_version [] maxVersion = maxVersion"
| "max_version ((n, c) # entries) maxVersion =
     max_version entries (if n > maxVersion then n else maxVersion)"

definition GetCurrentVersion :: "repo \<Rightarrow> nat" where
  "GetCurrentVersion r = max_version (commits_dir r) 0"

definition saveCommitMetadata :: "Commit \<Rightarrow> (nat \<times> Commit) list \<Rightarrow> (nat \<times> Commit) list" where
  "saveCommitMetadata c cs = (Version c, c) # filter (\<lambda>(n, c'). n \<noteq> Version c) cs"

definition CreateCommit ::
  "env \<Rightarrow> CommitManager \<Rightarrow> repo \<Rightarrow> string \<Rightarrow> StagedFile list \<Rightarrow> (string + Commit) \<times> repo" where
  "CreateCommit e cm r message stagedFiles =
     (if stagedFiles = [] then (Inl ''no files staged for commit'', r)
      else
        let currentVersion = GetCurrentVersion r;
            newVersion = currentVersion + 1;
            hash = new_hash e;
            meta = remdups (map Path stagedFiles)
        in case createSnapshot e cm (storage r) stagedFiles newVersion currentVersion of
             (Inl err, fs1) \<Rightarrow> (Inl (''snapshot creation failed: '' @ err), r\<lparr> storage := fs1 \<rparr>)
           | (Inr compressionResult, fs1) \<Rightarrow>
               let commit = \<lparr> Hash = hash, Message = message,
                               FilesCount = length stagedFiles, Version = newVersion,
                               Metadata = meta, ParentHash = HEAD r,
                               SnapshotZip =
                                 (if Strategy compressionResult = ''zip''
                                  then Some (OutputFile compressionResult) else None),
                               CompressionInfo = Some compressionResult \<rparr>
               in (Inr commit,
                   r\<lparr> storage := fs1, commits_dir := saveCommitMetadata commit (commits_dir r),
                      HEAD := hash \<rparr>))"

text \<open>\<open>optimizeToCache\<close>, the background task after an LZ4 commit: the stream of
  \<open>versions/v<n>.lz4\<close> is written again as \<open>cache/v<n>_optimized.zstd\<close>.\<close>

definition optimizeToCache :: "filesystem \<Rightarrow> nat \<Rightarrow> CompressionResult \<Rightarrow> filesystem" where
  "optimizeToCache fs version result =
     (if Strategy result \<noteq> ''lz4'' then fs
      else case fs (VersionsDir, OutputFile result) of
             Some (LZ4Frame s) \<Rightarrow> fs((CacheDir, OptimizedZstdName version) \<mapsto> ZstdFrame s)
           | Some c \<Rightarrow> fs((CacheDir, OptimizedZstdName version) \<mapsto> ZstdFrame [])
           | None \<Rightarrow> fs)"

section \<open>Restoring a version (package restore)\<close>

text \<open>
  The working directory is a map from relative paths to file contents. Restoration is
  modelled for an empty file filter (\<open>len(filesToRestore) = 0\<close>), except in
  \<open>extractFilesFromStream\<close>, where \<open>skip\<close> tells which paths the filter rejects.
  Creating directories and writing files below the working directory does not fail.
\<close>

type_synonym workdir = "string \<Rightarrow> bytes option"

record RestoreResult =
  RestoredFiles :: "string list"
  SkippedFiles :: "string list"
  ErrorFiles :: "string list"
  RestoreMethod :: string

definition newline :: char where
  "newline = CHR 0x0A"

text \<open>\<open>parseInt64\<close>: decimal digits only, in 64-bit arithmetic that wraps around;
  any other character gives 0.\<close>

definition wrap64 :: "int \<Rightarrow> int" where
  "wrap64 x = (x + 2 ^ 63) mod 2 ^ 64 - 2 ^ 63"

definition is_digit :: "char \<Rightarrow> bool" where
  "is_digit r = (48 \<le> (of_char r :: nat) \<and> (of_char r :: nat) \<le> 57)"

fun parseInt64_loop :: "string \<Rightarrow> int \<Rightarrow> int" where
  "parseInt64_loop [] result = result"
| "parseInt64_loop (r # rs) result =
     (if is_digit r then parseInt64_loop rs (wrap64 (result * 10 + (int (of_char r) - 48)))
      else 0)"

definition parseInt64 :: "string \<Rightarrow> int" where
  "parseInt64 s = parseInt64_loop s 0"

text \<open>\<open>strconv.ParseInt(s, 10, 64)\<close>: an optional sign and at least one decimal
  digit; \<open>None\<close> for a syntax error or a value outside the 64-bit range.\<close>

fun digits_value :: "string \<Rightarrow> int \<Rightarrow> int" where
  "digits_value [] acc = acc"
| "digits_value (r # rs) acc = digits_value rs (acc * 10 + (int (of_char r) - 48))"

definition strconv_ParseInt :: "string \<Rightarrow> int option" where
  "strconv_ParseInt s =
     (let (neg, ds) =
            (case s of
               [] \<Rightarrow> (False, [])
             | c # cs \<Rightarrow> if c = CHR ''-'' then (True, cs)
                         else if c = CHR ''+'' then (False, cs) else (False, s))
      in if ds = [] \<or> \<not> list_all is_digit ds then None
         else let v = (if neg then - digits_value ds 0 else digits_value ds 0)
              in if v < - (2 ^ 63) \<or> 2 ^ 63 \<le> v then None else Some v)"

lemma length_dropWhile_minus_less:
  "rest \<noteq> [] \<Longrightarrow> length (dropWhile P rest) - Suc k < length rest"
proof -
  assume "rest \<noteq> []"
  then have "0 < length rest" by simp
  moreover have "length (dropWhile P rest) \<le> length rest" by (rule length_dropWhile_le)
  ultimately show ?thesis by linarith
qed

text \<open>\<open>extractFilesFromStream\<close>: \<open>rest\<close> is \<open>content[pos:]\<close>; the result is the
  list of files written, in order, with their data, and the list of skipped paths.\<close>

function extractFilesFromStream_loop ::
  "(string \<Rightarrow> bool) \<Rightarrow> bytes \<Rightarrow> (string \<times> bytes) list \<times> string list
     \<Rightarrow> (string \<times> bytes) list \<times> string list" where
  "extractFilesFromStream_loop skip rest (restored, skipped) =
     (if rest = [] then (restored, skipped)
      else if newline \<notin> set rest then (restored, skipped)
      else
        let headerLine = takeWhile (\<lambda>c. c \<noteq> newline) rest;
            after = tl (dropWhile (\<lambda>c. c \<noteq> newline) rest)
        in if \<not> strings_HasPrefix headerLine ''FILE:''
           then extractFilesFromStream_loop skip after (restored, skipped)
           else
             let parts = strings_Split headerLine (CHR '':'')
             in if length parts \<noteq> 3
                then extractFilesFromStream_loop skip after (restored, skipped)
                else
                  let filePath = parts ! 1;
                      fileSize = parseInt64 (parts ! 2)
                  in if fileSize \<le> 0
                     then extractFilesFromStream_loop skip after (restored, skipped)
                     else if skip filePath
                     then extractFilesFromStream_loop skip (drop (nat fileSize) after)
                            (restored, skipped @ [filePath])
                     else if nat fileSize > length after then (restored, skipped)
                     else extractFilesFromStream_loop skip (drop (nat fileSize) after)
                            (restored @ [(filePath, take (nat fileSize) after)], skipped))"
  by pat_completeness auto
termination
  by (relation "measure (\<lambda>(skip, rest, acc). length rest)")
     (auto simp: length_dropWhile_minus_less)

declare extractFilesFromStream_loop.simps [simp del]

definition extractFilesFromStream ::
  "bytes \<Rightarrow> (string \<Rightarrow> bool) \<Rightarrow> (string \<times> bytes) list \<times> string list" where
  "extractFilesFromStream data skip = extractFilesFromStream_loop skip data ([], [])"

text \<open>\<open>createFileFromStructuredData\<close>: the data of the first record whose path, or
  whose base name, is the target's.\<close>

function createFileFromStructuredData_loop :: "bytes \<Rightarrow> string \<Rightarrow> string + bytes" where
  "createFileFromStructuredData_loop rest targetFileName =
     (if rest = [] then Inl ''file not found in structured data''
      else if newline \<notin> set rest then Inl ''file not found in structured data''
      else
        let headerLine = takeWhile (\<lambda>c. c \<noteq> newline) rest;
            after = tl (dropWhile (\<lambda>c. c \<noteq> newline) rest)
        in if \<not> strings_HasPrefix headerLine ''FILE:''
           then createFileFromStructuredData_loop after targetFileName
           else
             let parts = strings_Split headerLine (CHR '':'')
             in if length parts \<noteq> 3
                then createFileFromStructuredData_loop after targetFileName
                else
                  let fileName = parts ! 1
                  in (case strconv_ParseInt (parts ! 2) of
                        None \<Rightarrow> createFileFromStructuredData_loop after targetFileName
                      | Some fileSize \<Rightarrow>
                          if fileSize \<le> 0
                          then createFileFromStructuredData_loop after targetFileName
                          else if fileName = targetFileName \<or>
                                  filepath_Base fileName = filepath_Base targetFileName
                          then (if nat fileSize > length after
                                then Inl ''file data exceeds available data''
                                else Inr (take (nat fileSize) after))
                          else createFileFromStructuredData_loop (drop (nat fileSize) after)
                                 targetFileName))"
  by pat_completeness auto
termination
  by (relation "measure (\<lambda>(rest, target). length rest)")
     (auto simp: length_dropWhile_minus_less)

declare createFileFromStructuredData_loop.simps [simp del]

definition createFileFromStructuredData :: "bytes \<Rightarrow> string \<Rightarrow> string + bytes" where
  "createFileFromStructuredData data targetFileName =
     createFileFromStructuredData_loop data targetFileName"

text \<open>The loop of \<open>extractFromLZ4\<close> over the file names of the commit's metadata.\<close>

fun restore_metadata_files ::
  "bytes \<Rightarrow> string list \<Rightarrow> RestoreResult \<times> workdir \<Rightarrow> RestoreResult \<times> workdir" where
  "restore_metadata_files data [] acc = acc"
| "restore_metadata_files data (fileName # names) (result, wd) =
     (case createFileFromStructuredData data fileName of
        Inl err \<Rightarrow>
          restore_metadata_files data names
            (result\<lparr> ErrorFiles := ErrorFiles result @ [fileName] \<rparr>, wd)
      | Inr fileData \<Rightarrow>
          restore_metadata_files data names
            (result\<lparr> RestoredFiles := RestoredFiles result @ [fileName] \<rparr>,
             wd(fileName \<mapsto> fileData)))"

text \<open>\<open>extractFromLZ4\<close>: the version is read back from the file name, the commit
  record of that version gives the file names.\<close>

definition extractFromLZ4 ::
  "repo \<Rightarrow> path \<Rightarrow> RestoreResult \<times> workdir \<Rightarrow> string + RestoreResult \<times> workdir" where
  "extractFromLZ4 r lz4Path acc =
     (case snd lz4Path of
        Lz4Name version \<Rightarrow>
          (case map_of (commits_dir r) version of
             None \<Rightarrow> Inl ''failed to load commit''
           | Some commit \<Rightarrow>
               (case storage r lz4Path of
                  Some (LZ4Frame decompressedData) \<Rightarrow>
                    Inr (restore_metadata_files decompressedData (Metadata commit) acc)
                | _ \<Rightarrow> Inl ''failed to decompress LZ4 data''))
      | _ \<Rightarrow> Inl ''failed to parse version from filename'')"

fun write_entries :: "(string \<times> bytes) list \<Rightarrow> RestoreResult \<times> workdir \<Rightarrow> RestoreResult \<times> workdir" where
  "write_entries [] acc = acc"
| "write_entries ((filePath, fileData) # entries) (result, wd) =
     write_entries entries
       (result\<lparr> RestoredFiles := RestoredFiles result @ [filePath] \<rparr>, wd(filePath \<mapsto> fileData))"

definition extractFromZstd ::
  "repo \<Rightarrow> path \<Rightarrow> RestoreResult \<times> workdir \<Rightarrow> string + RestoreResult \<times> workdir" where
  "extractFromZstd r zstdPath acc =
     (case storage r zstdPath of
        Some (ZstdFrame data) \<Rightarrow>
          Inr (write_entries (fst (extractFilesFromStream data (\<lambda>p. False))) acc)
      | _ \<Rightarrow> Inl ''failed to read stream'')"

text \<open>\<open>tryVersionRestore\<close> and \<open>tryCacheRestore\<close> return \<open>None\<close> for Go's
  \<open>nil\<close>; the method they set on the shared result stays set.\<close>

definition tryVersionRestore ::
  "repo \<Rightarrow> Commit \<Rightarrow> RestoreResult \<times> workdir \<Rightarrow> (RestoreResult \<times> workdir) option \<times> RestoreResult" where
  "tryVersionRestore r commit acc =
     (case CompressionInfo commit of
        None \<Rightarrow> (None, fst acc)
      | Some ci \<Rightarrow>
          if Strategy ci \<noteq> ''lz4'' then (None, fst acc)
          else
            let versionPath = (VersionsDir, OutputFile ci)
            in if \<not> fileExists (storage r) versionPath then (None, fst acc)
               else
                 let result1 = (fst acc)\<lparr> RestoreMethod := ''versions'' \<rparr>
                 in (case extractFromLZ4 r versionPath (result1, snd acc) of
                       Inl err \<Rightarrow> (None, result1)
                     | Inr done \<Rightarrow> (Some done, fst done)))"

definition tryCacheRestore ::
  "repo \<Rightarrow> Commit \<Rightarrow> RestoreResult \<times> workdir \<Rightarrow> (RestoreResult \<times> workdir) option \<times> RestoreResult" where
  "tryCacheRestore r commit acc =
     (let lz4Path = (CacheDir, Lz4Name (Version commit));
          zstdPath = (CacheDir, OptimizedZstdName (Version commit))
      in if \<not> fileExists (storage r) lz4Path \<and> \<not> fileExists (storage r) zstdPath
         then (None, fst acc)
         else
           let result1 = (fst acc)\<lparr> RestoreMethod := ''cache'' \<rparr>;
               outcome = (if fileExists (storage r) lz4Path
                          then extractFromLZ4 r lz4Path (result1, snd acc)
                          else extractFromZstd r zstdPath (result1, snd acc))
           in (case outcome of
                 Inl err \<Rightarrow> (None, result1)
               | Inr done \<Rightarrow> (Some done, fst done)))"

text \<open>\<open>restoreFromSmartDelta\<close>: the payload of the smart-delta file is written to
  the path its manifest names.\<close>

definition restoreFromSmartDelta ::
  "repo \<Rightarrow> Commit \<Rightarrow> RestoreResult \<times> workdir \<Rightarrow> string + RestoreResult \<times> workdir" where
  "restoreFromSmartDelta r commit acc =
     (case CompressionInfo commit of
        None \<Rightarrow> Inl ''no compression info in commit''
      | Some ci \<Rightarrow>
          let deltaPath =
                (if fileExists (storage r) (CacheDir, OutputFile ci)
                 then Some (CacheDir, OutputFile ci)
                 else if fileExists (storage r) (VersionsDir, OutputFile ci)
                 then Some (VersionsDir, OutputFile ci)
                 else None)
          in (case deltaPath of
                None \<Rightarrow> Inl ''smart delta file not found''
              | Some dp \<Rightarrow>
                  (case storage r dp of
                     Some (SmartDeltaFile deltaMetadata decompressedData) \<Rightarrow>
                       let filePath = file_path deltaMetadata
                       in Inr ((fst acc)\<lparr> RestoredFiles := RestoredFiles (fst acc) @ [filePath] \<rparr>,
                               (snd acc)(filePath \<mapsto> decompressedData))
                   | _ \<Rightarrow> Inl ''invalid smart delta format'')))"

record RestorationStep =
  StepType :: string
  StepFile :: path
  StepVersion :: nat

text \<open>\<open>findOptimizedRestorationPath\<close>: the walk backwards from the target version.
  A step is put in front of the path; a snapshot ends the walk, a delta continues it at
  the version before.\<close>

fun findOptimizedRestorationPath_loop ::
  "filesystem \<Rightarrow> nat \<Rightarrow> RestorationStep list \<Rightarrow> string + RestorationStep list" where
  "findOptimizedRestorationPath_loop fs 0 path = Inr path"
| "findOptimizedRestorationPath_loop fs (Suc v) path =
     (let currentVersion = Suc v in
      if fileExists fs (VersionsDir, Lz4Name currentVersion)
      then Inr (\<lparr> StepType = ''lz4'', StepFile = (VersionsDir, Lz4Name currentVersion),
                  StepVersion = currentVersion \<rparr> # path)
      else if fileExists fs (CacheDir, Lz4Name currentVersion)
      then Inr (\<lparr> StepType = ''lz4'', StepFile = (CacheDir, Lz4Name currentVersion),
                  StepVersion = currentVersion \<rparr> # path)
      else if fileExists fs (CacheDir, OptimizedZstdName currentVersion)
      then Inr (\<lparr> StepType = ''zstd'', StepFile = (CacheDir, OptimizedZstdName currentVersion),
                  StepVersion = currentVersion \<rparr> # path)
      else if fileExists fs (ObjectsDir, ZipName currentVersion)
      then Inr (\<lparr> StepType = ''zip'', StepFile = (ObjectsDir, ZipName currentVersion),
                  StepVersion = currentVersion \<rparr> # path)
      else if fileExists fs (DeltaDir, BsdiffName currentVersion (currentVersion - 1))
      then findOptimizedRestorationPath_loop fs v
             (\<lparr> StepType = ''bsdiff'',
                StepFile = (DeltaDir, BsdiffName currentVersion (currentVersion - 1)),
                StepVersion = currentVersion \<rparr> # path)
      else if fileExists fs (CacheDir, PsdSmartName currentVersion (currentVersion - 1))
      then findOptimizedRestorationPath_loop fs v
             (\<lparr> StepType = ''smart_delta'',
                StepFile = (CacheDir, PsdSmartName currentVersion (currentVersion - 1)),
                StepVersion = currentVersion \<rparr> # path)
      else Inl ''missing restoration data'')"

definition findOptimizedRestorationPath :: "filesystem \<Rightarrow> nat \<Rightarrow> string + RestorationStep list" where
  "findOptimizedRestorationPath fs targetVersion =
     (case findOptimizedRestorationPath_loop fs targetVersion [] of
        Inl err \<Rightarrow> Inl err
      | Inr path \<Rightarrow> if path = [] then Inl ''no restoration path found'' else Inr path)"

text \<open>\<open>extractFilesFromZip\<close>: every entry that is not a directory is written.\<close>

definition extractFilesFromZip ::
  "(string \<times> bytes) list \<Rightarrow> RestoreResult \<times> workdir \<Rightarrow> RestoreResult \<times> workdir" where
  "extractFilesFromZip entries acc =
     write_entries (filter (\<lambda>(name, d). name = [] \<or> last name \<noteq> CHR ''/'') entries) acc"

definition restoreFromZip ::
  "repo \<Rightarrow> fname \<Rightarrow> RestoreResult \<times> workdir \<Rightarrow> string + RestoreResult \<times> workdir" where
  "restoreFromZip r zipFileName acc =
     (case storage r (ObjectsDir, zipFileName) of
        None \<Rightarrow> Inl ''ZIP file not found''
      | Some (ZipArchive entries) \<Rightarrow> Inr (extractFilesFromZip entries acc)
      | Some c \<Rightarrow> Inl ''failed to open ZIP file'')"

text \<open>\<open>restoreFromOptimizedDeltaChain\<close>: the path is found, then executed.
  Executing a path (conversion of the base to a ZIP archive, then
  \<open>binarydist.Patch\<close> for each delta) is the parameter \<open>execute\<close>, which gives the
  entries of the final archive.\<close>

definition restoreFromOptimizedDeltaChain ::
  "(filesystem \<Rightarrow> RestorationStep list \<Rightarrow> string + (string \<times> bytes) list) \<Rightarrow> repo \<Rightarrow> nat
     \<Rightarrow> RestoreResult \<times> workdir \<Rightarrow> string + RestoreResult \<times> workdir" where
  "restoreFromOptimizedDeltaChain execute r targetVersion acc =
     (case findOptimizedRestorationPath (storage r) targetVersion of
        Inl err \<Rightarrow> Inl err
      | Inr restorationPath \<Rightarrow>
          (case execute (storage r) restorationPath of
             Inl err \<Rightarrow> Inl err
           | Inr entries \<Rightarrow> Inr (extractFilesFromZip entries acc)))"

definition performFastRestore ::
  "(filesystem \<Rightarrow> RestorationStep list \<Rightarrow> string + (string \<times> bytes) list) \<Rightarrow> repo \<Rightarrow> Commit
     \<Rightarrow> nat \<Rightarrow> workdir \<Rightarrow> string + RestoreResult \<times> workdir" where
  "performFastRestore execute r commit version wd =
     (let result = \<lparr> RestoredFiles = [], SkippedFiles = [], ErrorFiles = [], RestoreMethod = [] \<rparr>
      in case tryVersionRestore r commit (result, wd) of
           (Some versionResult, result1) \<Rightarrow> Inr versionResult
         | (None, result1) \<Rightarrow>
             (case tryCacheRestore r commit (result1, wd) of
                (Some cacheResult, result2) \<Rightarrow> Inr cacheResult
              | (None, result2) \<Rightarrow>
                  let strategy = (case CompressionInfo commit of None \<Rightarrow> [] | Some ci \<Rightarrow> Strategy ci)
                  in if CompressionInfo commit \<noteq> None \<and>
                        (strategy = ''psd_smart'' \<or> strategy = ''design_smart_delta'')
                     then restoreFromSmartDelta r commit
                            (result2\<lparr> RestoreMethod := ''smart_delta'' \<rparr>, wd)
                     else if CompressionInfo commit \<noteq> None \<and>
                             (strategy = ''bsdiff'' \<or> strategy = ''xdelta3'')
                     then restoreFromOptimizedDeltaChain execute r version
                            (result2\<lparr> RestoreMethod := ''delta_chain'' \<rparr>, wd)
                     else if CompressionInfo commit \<noteq> None \<and> strategy = ''zip''
                     then restoreFromZip r (OutputFile (the (CompressionInfo commit)))
                            (result2\<lparr> RestoreMethod := ''zip'' \<rparr>, wd)
                     else (case SnapshotZip commit of
                             Some zipFileName \<Rightarrow>
                               restoreFromZip r zipFileName (result2\<lparr> RestoreMethod := ''zip'' \<rparr>, wd)
                           | None \<Rightarrow> Inl ''no restoration method available'')))"

text \<open>\<open>RestoreFilesFromCommit\<close> for the reference \<open>v<version>\<close>.\<close>

definition RestoreFilesFromCommit ::
  "(filesystem \<Rightarrow> RestorationStep list \<Rightarrow> string + (string \<times> bytes) list) \<Rightarrow> repo \<Rightarrow> nat
     \<Rightarrow> workdir \<Rightarrow> string + RestoreResult \<times> workdir" where
  "RestoreFilesFromCommit execute r version wd =
     (case map_of (commits_dir r) version of
        None \<Rightarrow> Inl ''failed to load commit data''
      | Some commit \<Rightarrow> performFastRestore execute r commit version wd)"

text \<open>The bytes the encoder writes for one staged file.\<close>

definition record_bytes :: "env \<Rightarrow> StagedFile \<Rightarrow> bytes" where
  "record_bytes e f =
     (case read_file e (AbsolutePath f) of
        None \<Rightarrow> []
      | Some c \<Rightarrow> file_header (Path f) (length c) @ c)"

section \<open>Reachable repositories and the delta chain\<close>

text \<open>
  The delta chain of a version is the sequence of deltas from it back to the first
  version with an artifact that is not a delta, that is, one \<open>findVersionInStorage\<close>
  finds; \<open>delta_chain_length\<close> is its length.
\<close>

fun delta_chain_length :: "filesystem \<Rightarrow> nat \<Rightarrow> nat" where
  "delta_chain_length fs 0 = 0"
| "delta_chain_length fs (Suc v) =
     (if findVersionInStorage fs (Suc v) = None then Suc (delta_chain_length fs v) else 0)"

text \<open>The states of a repository: it starts empty; a commit attempt (successful or
  not) and the background optimization of a committed version are its steps.\<close>

inductive reachable :: "CommitManager \<Rightarrow> repo \<Rightarrow> bool" for cm :: CommitManager where
  reachable_init: "reachable cm empty_repo"
| reachable_commit:
    "reachable cm r \<Longrightarrow> reachable cm (snd (CreateCommit e cm r message stagedFiles))"
| reachable_optimize:
    "reachable cm r \<Longrightarrow> map_of (commits_dir r) version = Some c \<Longrightarrow>
     CompressionInfo c = Some result \<Longrightarrow>
     reachable cm (r\<lparr> storage := optimizeToCache (storage r) version result \<rparr>)"

text \<open>The paths an attempt at a snapshot of version \<open>V\<close> on base \<open>B\<close> can
  write or remove.\<close>

definition touched :: "nat \<Rightarrow> nat \<Rightarrow> path set" where
  "touched V B = {(VersionsDir, Lz4Name V), (CacheDir, TempLz4Name V),
     (CacheDir, BsdiffName V B), (CacheDir, PsdSmartName V B),
     (DeltaDir, BsdiffName V B), (DeltaDir, PsdSmartName V B)}"

text \<open>Every committed version has a delta chain within the configured bound.\<close>

definition chains_bounded :: "CommitManager \<Rightarrow> repo \<Rightarrow> bool" where
  "chains_bounded cm r =
     (\<forall>v c. map_of (commits_dir r) v = Some c \<longrightarrow>
            delta_chain_length (storage r) v \<le> MaxDeltaChainLength cm)"

section \<open>Example inputs\<close>

text \<open>A working directory with five readable files: \<open>logo.fig\<close>,
  \<open>design.psd\<close> and \<open>poster.ai\<close> of ten bytes, the empty \<open>empty.fig\<close> and
  \<open>v1:final.fig\<close> of three bytes; \<open>sz\<close> gives the size on disk of a stored
  artifact. The files are short stand-ins for design files: the pipeline looks at a
  staged file's extension, at its size against 50 MiB, and at the quotient of the size
  on disk by the staged size, and every PSD is taken to parse.\<close>

definition work_env :: "(content \<Rightarrow> int) \<Rightarrow> env" where
  "work_env sz = \<lparr> read_file = map_of [(''/work/logo.fig'', ''0123456789''),
                                         (''/work/design.psd'', ''0123456789''),
                                         (''/work/poster.ai'', ''0123456789''),
                                         (''/work/empty.fig'', []),
                                         (''/work/v1:final.fig'', ''abc'')],
     stat_size = sz, psd_info_ok = (\<lambda>b. True), previous_layers_ok = True,
     new_hash = ''4ea7d8384946'' \<rparr>"

definition logo_fig :: StagedFile where
  "logo_fig = \<lparr> Path = ''logo.fig'', AbsolutePath = ''/work/logo.fig'', FileType = ''fig'',
     Size = 10, ModTime = 0 \<rparr>"

definition design_psd :: StagedFile where
  "design_psd = \<lparr> Path = ''design.psd'', AbsolutePath = ''/work/design.psd'', FileType = ''psd'',
     Size = 10, ModTime = 0 \<rparr>"


text \<open>A repository whose only artifact is \<open>versions/v<n>.lz4\<close>.\<close>

definition storage_with :: "nat \<Rightarrow> filesystem" where
  "storage_with v = (\<lambda>p. if p = (VersionsDir, Lz4Name v) then Some (LZ4Frame []) else None)"

text \<open>Sizes on disk: 9 bytes for a delta artifact, 8 for any other.\<close>

definition delta_9_lz4_8 :: "content \<Rightarrow> int" where
  "delta_9_lz4_8 c = (case c of SmartDeltaFile m b \<Rightarrow> 9 | BsdiffPatch a b \<Rightarrow> 9 | _ \<Rightarrow> 8)"


definition empty_fig :: StagedFile where
  "empty_fig = \<lparr> Path = ''empty.fig'', AbsolutePath = ''/work/empty.fig'', FileType = ''fig'',
     Size = 0, ModTime = 0 \<rparr>"

definition colon_fig :: StagedFile where
  "colon_fig = \<lparr> Path = ''v1:final.fig'', AbsolutePath = ''/work/v1:final.fig'', FileType = ''fig'',
     Size = 3, ModTime = 0 \<rparr>"

definition poster_ai :: StagedFile where
  "poster_ai = \<lparr> Path = ''poster.ai'', AbsolutePath = ''/work/poster.ai'', FileType = ''ai'',
     Size = 10, ModTime = 0 \<rparr>"

text \<open>Two commits of \<open>design.psd\<close> and \<open>logo.fig\<close> (the second is a smart delta),
  and two commits of \<open>poster.ai\<close> (the second is a binary patch); every artifact has
  5 bytes on disk.\<close>

definition repo_psd_v2 :: repo where
  "repo_psd_v2 =
     snd (CreateCommit (work_env (\<lambda>c. 5)) NewCommitManager
       (snd (CreateCommit (work_env (\<lambda>c. 5)) NewCommitManager empty_repo ''init''
          [design_psd, logo_fig]))
       ''second'' [design_psd, logo_fig])"

definition repo_ai_v2 :: repo where
  "repo_ai_v2 =
     snd (CreateCommit (work_env (\<lambda>c. 5)) NewCommitManager
       (snd (CreateCommit (work_env (\<lambda>c. 5)) NewCommitManager empty_repo ''init'' [poster_ai]))
       ''second'' [poster_ai])"

text \<open>Two files with the same base name in different directories.\<close>

definition dirs_env :: env where
  "dirs_env = \<lparr> read_file = map_of [(''/work/a/x.fig'', ''AAA''), (''/work/b/x.fig'', ''BBBB'')],
     stat_size = (\<lambda>c. 5), psd_info_ok = (\<lambda>b. True), previous_layers_ok = True,
     new_hash = ''4ea7d8384946'' \<rparr>"

definition a_x_fig :: StagedFile where
  "a_x_fig = \<lparr> Path = ''a/x.fig'', AbsolutePath = ''/work/a/x.fig'', FileType = ''fig'',
     Size = 3, ModTime = 0 \<rparr>"

definition b_x_fig :: StagedFile where
  "b_x_fig = \<lparr> Path = ''b/x.fig'', AbsolutePath = ''/work/b/x.fig'', FileType = ''fig'',
     Size = 4, ModTime = 0 \<rparr>"

text \<open>A path executor that is never reached in the examples.\<close>

definition no_execute :: "filesystem \<Rightarrow> RestorationStep list \<Rightarrow> string + (string \<times> bytes) list" where
  "no_execute fs steps = Inl ''not executed''"

section \<open>Layer type of a parsed layer record\<close>

lemma determineLayerType_key:
  "length key = 4 \<Longrightarrow>
   determineLayerType name key \<in> {''text'', ''adjustment'', ''background'', ''effect''}"
  by (auto simp: determineLayerType_def Let_def)

text \<open>
  C7. A layer record whose name matches none of the name patterns and whose blend mode is
  normal (key \<open>norm\<close>, shown as \<open>normal\<close>) should be typed \<open>normal\<close>. The parser
  hands the raw key to \<open>determineLayerType\<close>, which compares it with \<open>normal\<close>, so the
  layer is typed \<open>effect\<close>.
\<close>

theorem parseIndividualLayer_norm_is_effect:
  "BlendMode (parseIndividualLayer h shape_layer 0 ''a.psd'') = ''normal'' \<and>
   Name (parseIndividualLayer h shape_layer 0 ''a.psd'') = ''Shape 1'' \<and>
   LayerType (parseIndividualLayer h shape_layer 0 ''a.psd'') = ''effect''"
  by (simp add: parseIndividualLayer_def shape_layer_def mapBlendMode_def
      determineLayerType_def strings_ToLower_def to_lower_char_def strings_HasPrefix_def Let_def)

section \<open>File identity fingerprint\<close>

lemma nat_int_div2: "nat (int n div 2) = n div 2"
  by linarith

lemma nat_int_minus_numeral: "nat (int n - numeral k) = n - numeral k"
  by (simp add: nat_diff_distrib')

text \<open>
  C6. For a file that can be opened and whose \<open>Stat\<close> succeeds, the fingerprint is
  the SHA-256 (in hex) of the header line followed by the size-dependent samples: the
  whole contents up to and including 10 MiB; the first and the last 32 KiB above 10 MiB
  and up to 500 MiB; the first 64 KiB, 4 KiB from the midpoint and the last 64 KiB above
  500 MiB.
\<close>

theorem generateFileHash_samples:
  "generateFileHash H path (Some (content, modtime)) True =
     Inr (H (''path:'' @ path @ '':size:'' @ show_nat (length content) @ '':modtime:''
             @ show_int modtime @ '':'' @ fingerprint_samples content))"
  by (simp add: generateFileHash_def fingerprint_samples_def file_Read_def file_Seek_start_def
      file_Seek_end_def LargeFileSize_def HashSampleSize_def MiB_def KiB_def Let_def
      nat_int_div2 nat_int_minus_numeral)

section \<open>Properties of float64 rounding\<close>

lemma rne_of_int [simp]: "rne (of_int k) = k"
  by (simp add: rne_def)

lemma rne_mono: "x \<le> y \<Longrightarrow> rne x \<le> rne y"
proof -
  assume xy: "x \<le> y"
  have fl: "\<lfloor>x\<rfloor> \<le> \<lfloor>y\<rfloor>" using xy by (rule floor_mono)
  have lo: "\<lfloor>y\<rfloor> \<le> rne y" by (simp add: rne_def Let_def)
  have hi: "rne x \<le> \<lfloor>x\<rfloor> + 1" by (simp add: rne_def Let_def)
  show ?thesis
  proof (cases "\<lfloor>x\<rfloor> = \<lfloor>y\<rfloor>")
    case True
    then show ?thesis using xy by (auto simp: rne_def Let_def)
  next
    case False
    then have "\<lfloor>x\<rfloor> + 1 \<le> \<lfloor>y\<rfloor>" using fl by linarith
    then show ?thesis using lo hi by linarith
  qed
qed


lemma f64_exponent_bounds:
  assumes "0 < x"
  shows "2 powi (f64_exponent x) \<le> x" and "x < 2 powi (f64_exponent x + 1)"
proof -
  have "2 powi (f64_exponent x) \<le> x \<and> x < 2 powi (f64_exponent x + 1)"
  proof (cases "1 \<le> x")
    case True
    define n where "n = \<lfloor>x\<rfloor>"
    have n1: "1 \<le> n" using True by (simp add: n_def)
    then have npos: "0 < n" by simp
    have k1: "1 \<le> bitlen n" using npos bitlen_eq_zero_iff[of n] bitlen_nonneg[of n] by linarith
    from bitlen_bounds[OF npos]
    have lo: "2 ^ nat (bitlen n - 1) \<le> n" and hi: "n < 2 ^ nat (bitlen n)" by auto
    have e: "f64_exponent x = bitlen n - 1" using True by (simp add: f64_exponent_def n_def)
    have "(2::rat) powi (bitlen n - 1) = of_int (2 ^ nat (bitlen n - 1))"
      using k1 by (simp add: power_int_def)
    also have "\<dots> \<le> of_int n" using lo by (simp only: of_int_le_iff)
    also have "\<dots> \<le> x" unfolding n_def by linarith
    finally have A: "2 powi (f64_exponent x) \<le> x" by (simp add: e)
    have "n + 1 \<le> 2 ^ nat (bitlen n)" using hi by simp
    then have "(of_int (n + 1) :: rat) \<le> of_int (2 ^ nat (bitlen n))" by (simp only: of_int_le_iff)
    moreover have "x < of_int (n + 1)" unfolding n_def by linarith
    ultimately have "x < of_int (2 ^ nat (bitlen n))" by linarith
    also have "\<dots> = 2 powi (bitlen n)" using k1 by (simp add: power_int_def)
    finally have B: "x < 2 powi (f64_exponent x + 1)" by (simp add: e)
    show ?thesis using A B by simp
  next
    case False
    then have x1: "x < 1" by simp
    define y where "y = 1 / x"
    have y1: "1 < y" using assms x1 by (simp add: y_def)
    define m where "m = \<lceil>y\<rceil> - 1"
    have "2 \<le> \<lceil>y\<rceil>" using y1 by linarith
    then have mpos: "0 < m" by (simp add: m_def)
    have k1: "1 \<le> bitlen m" using mpos bitlen_eq_zero_iff[of m] bitlen_nonneg[of m] by linarith
    from bitlen_bounds[OF mpos]
    have lo: "2 ^ nat (bitlen m - 1) \<le> m" and hi: "m < 2 ^ nat (bitlen m)" by auto
    have e: "f64_exponent x = - bitlen m" using False by (simp add: f64_exponent_def m_def y_def)
    have my: "of_int m < y" unfolding m_def by linarith
    have ym: "y \<le> of_int (m + 1)" unfolding m_def by linarith
    have "m + 1 \<le> 2 ^ nat (bitlen m)" using hi by simp
    then have "(of_int (m + 1) :: rat) \<le> of_int (2 ^ nat (bitlen m))" by (simp only: of_int_le_iff)
    then have "y \<le> of_int (2 ^ nat (bitlen m))" using ym by linarith
    then have yk: "y \<le> 2 ^ nat (bitlen m)" by simp
    have "1 / (2 ^ nat (bitlen m)) \<le> 1 / y"
      using yk y1 by (intro divide_left_mono) auto
    then have "1 / (2 ^ nat (bitlen m)) \<le> x" using assms by (simp add: y_def)
    moreover have "(2::rat) powi (- bitlen m) = 1 / 2 ^ nat (bitlen m)"
      using k1 by (simp add: power_int_def inverse_eq_divide power_inverse flip: power_one_over)
    ultimately have A: "2 powi (f64_exponent x) \<le> x" by (simp add: e)
    have "(of_int (2 ^ nat (bitlen m - 1)) :: rat) \<le> of_int m" using lo by (simp only: of_int_le_iff)
    moreover have "(of_int (2 ^ nat (bitlen m - 1)) :: rat) = 2 ^ nat (bitlen m - 1)" by simp
    ultimately have "2 ^ nat (bitlen m - 1) < y" using my by linarith
    then have "1 / y < 1 / 2 ^ nat (bitlen m - 1)"
      using y1 by (intro divide_strict_left_mono) (auto intro: mult_pos_pos)
    then have "x < 1 / 2 ^ nat (bitlen m - 1)" using assms by (simp add: y_def)
    moreover have "(2::rat) powi (- bitlen m + 1) = 1 / 2 ^ nat (bitlen m - 1)"
    proof -
      have "- bitlen m + 1 = - (bitlen m - 1)" by simp
      then have "(2::rat) powi (- bitlen m + 1) = 2 powi (- (bitlen m - 1))" by simp
      also have "\<dots> = 1 / 2 powi (bitlen m - 1)" by (rule power_int_minus_divide)
      also have "\<dots> = 1 / 2 ^ nat (bitlen m - 1)" using k1 by (simp add: power_int_def)
      finally show ?thesis .
    qed
    ultimately have B: "x < 2 powi (f64_exponent x + 1)" by (simp add: e)
    show ?thesis using A B by simp
  qed
  then show "2 powi (f64_exponent x) \<le> x" and "x < 2 powi (f64_exponent x + 1)" by simp_all
qed

lemma pow2_mono: "a \<le> b \<Longrightarrow> (2::rat) powi a \<le> 2 powi b"
  by (rule power_int_increasing) simp_all

lemma f64_exponent_unique:
  assumes "0 < x" "2 powi e \<le> x" "x < 2 powi (e + 1)"
  shows "f64_exponent x = e"
proof (rule ccontr)
  assume ne: "f64_exponent x \<noteq> e"
  note b = f64_exponent_bounds[OF assms(1)]
  show False
  proof (cases "f64_exponent x < e")
    case True
    then have "f64_exponent x + 1 \<le> e" by simp
    then have "(2::rat) powi (f64_exponent x + 1) \<le> 2 powi e" by (rule pow2_mono)
    then show False using b(2) assms(2) by linarith
  next
    case False
    then have "e + 1 \<le> f64_exponent x" using ne by simp
    then have "(2::rat) powi (e + 1) \<le> 2 powi (f64_exponent x)" by (rule pow2_mono)
    then show False using b(1) assms(3) by linarith
  qed
qed

lemma f64_exponent_mono:
  assumes "0 < x" "x \<le> y"
  shows "f64_exponent x \<le> f64_exponent y"
proof (rule ccontr)
  assume "\<not> f64_exponent x \<le> f64_exponent y"
  then have "f64_exponent y + 1 \<le> f64_exponent x" by simp
  then have "(2::rat) powi (f64_exponent y + 1) \<le> 2 powi (f64_exponent x)" by (rule pow2_mono)
  moreover have "0 < y" using assms by simp
  ultimately show False
    using f64_exponent_bounds(1)[OF assms(1)] f64_exponent_bounds(2)[OF \<open>0 < y\<close>] assms(2)
    by linarith
qed


lemma f64_round_pos:
  "0 < x \<Longrightarrow> f64_round x = of_int (rne (x / 2 powi (f64_exponent x - 52))) * 2 powi (f64_exponent x - 52)"
  by (simp add: f64_round_def Let_def)

lemma f64_scaled_bounds:
  assumes "0 < x"
  shows "2 ^ 52 \<le> x / 2 powi (f64_exponent x - 52)"
    and "x / 2 powi (f64_exponent x - 52) \<le> 2 ^ 53"
proof -
  let ?e = "f64_exponent x"
  let ?u = "(2::rat) powi (?e - 52)"
  have u: "0 < ?u" by (simp add: zero_less_power_int)
  have lo: "(2::rat) powi ?e = 2 ^ 52 * ?u"
    by (simp add: power_int_diff)
  have hi: "(2::rat) powi (?e + 1) = 2 ^ 53 * ?u"
    by (simp add: power_int_diff power_int_add)
  note b = f64_exponent_bounds[OF assms]
  have "2 ^ 52 * ?u \<le> x" using b(1) lo by simp
  then show "2 ^ 52 \<le> x / ?u" using u by (simp add: pos_le_divide_eq)
  have "x \<le> 2 ^ 53 * ?u" using b(2) hi by simp
  then show "x / ?u \<le> 2 ^ 53" using u by (simp add: pos_divide_le_eq)
qed

lemma f64_mantissa_bounds:
  assumes "0 < x"
  shows "2 ^ 52 \<le> rne (x / 2 powi (f64_exponent x - 52))"
    and "rne (x / 2 powi (f64_exponent x - 52)) \<le> 2 ^ 53"
proof -
  have "rne (of_int (2 ^ 52)) \<le> rne (x / 2 powi (f64_exponent x - 52))"
    using f64_scaled_bounds(1)[OF assms] by (intro rne_mono) simp
  then show "2 ^ 52 \<le> rne (x / 2 powi (f64_exponent x - 52))"
    by (simp only: rne_of_int)
  have "rne (x / 2 powi (f64_exponent x - 52)) \<le> rne (of_int (2 ^ 53))"
    using f64_scaled_bounds(2)[OF assms] by (intro rne_mono) simp
  then show "rne (x / 2 powi (f64_exponent x - 52)) \<le> 2 ^ 53"
    by (simp only: rne_of_int)
qed

lemma f64_round_bounds:
  assumes "0 < x"
  shows "2 powi (f64_exponent x) \<le> f64_round x"
    and "f64_round x \<le> 2 powi (f64_exponent x + 1)"
proof -
  let ?e = "f64_exponent x"
  let ?u = "(2::rat) powi (?e - 52)"
  let ?m = "rne (x / ?u)"
  have u: "0 < ?u" by (simp add: zero_less_power_int)
  have lo: "(2::rat) powi ?e = 2 ^ 52 * ?u"
    by (simp add: power_int_diff)
  have hi: "(2::rat) powi (?e + 1) = 2 ^ 53 * ?u"
    by (simp add: power_int_diff power_int_add)
  have "(of_int (2 ^ 52) :: rat) \<le> of_int ?m"
    using f64_mantissa_bounds(1)[OF assms] by (simp only: of_int_le_iff)
  then have "2 ^ 52 * ?u \<le> of_int ?m * ?u" using u by (intro mult_right_mono) simp_all
  then show "2 powi ?e \<le> f64_round x" using assms lo by (simp add: f64_round_pos)
  have "(of_int ?m :: rat) \<le> of_int (2 ^ 53)"
    using f64_mantissa_bounds(2)[OF assms] by (simp only: of_int_le_iff)
  then have "of_int ?m * ?u \<le> 2 ^ 53 * ?u" using u by (intro mult_right_mono) simp_all
  then show "f64_round x \<le> 2 powi (?e + 1)" using assms hi by (simp add: f64_round_pos)
qed

lemma f64_round_mono:
  assumes "0 < x" "x \<le> y"
  shows "f64_round x \<le> f64_round y"
proof -
  have ypos: "0 < y" using assms by simp
  have le: "f64_exponent x \<le> f64_exponent y" using assms by (rule f64_exponent_mono)
  show ?thesis
  proof (cases "f64_exponent x = f64_exponent y")
    case True
    let ?u = "(2::rat) powi (f64_exponent y - 52)"
    have u: "0 < ?u" by (simp add: zero_less_power_int)
    have "x / ?u \<le> y / ?u" using assms(2) u by (simp add: divide_right_mono)
    then have "rne (x / ?u) \<le> rne (y / ?u)" by (rule rne_mono)
    then have "(of_int (rne (x / ?u)) :: rat) \<le> of_int (rne (y / ?u))" by (simp only: of_int_le_iff)
    then have "of_int (rne (x / ?u)) * ?u \<le> of_int (rne (y / ?u)) * ?u"
      using u by (intro mult_right_mono) simp_all
    then show ?thesis using assms(1) ypos True by (simp add: f64_round_pos)
  next
    case False
    then have "f64_exponent x + 1 \<le> f64_exponent y" using le by simp
    then have "(2::rat) powi (f64_exponent x + 1) \<le> 2 powi (f64_exponent y)" by (rule pow2_mono)
    then show ?thesis
      using f64_round_bounds(2)[OF assms(1)] f64_round_bounds(1)[OF ypos] by linarith
  qed
qed

lemma f64_round_of_int:
  assumes "0 \<le> n" "n < 2 ^ 53"
  shows "f64_round (of_int n) = of_int n"
proof (cases "n = 0")
  case True
  then show ?thesis by (simp add: f64_round_def)
next
  case False
  then have npos: "0 < n" using assms by simp
  let ?x = "of_int n :: rat"
  let ?e = "f64_exponent ?x"
  have xpos: "0 < ?x" using npos by simp
  note b = f64_exponent_bounds[OF xpos]
  have e_hi: "?e \<le> 52"
  proof (rule ccontr)
    assume "\<not> ?e \<le> 52"
    then have "53 \<le> ?e" by simp
    then have "(2::rat) powi 53 \<le> 2 powi ?e" by (rule pow2_mono)
    then have "(2::rat) ^ 53 \<le> ?x" using b(1) by simp
    moreover have "?x < of_int (2 ^ 53)" using assms(2) by (simp only: of_int_less_iff)
    ultimately show False by simp
  qed
  define k where "k = nat (52 - ?e)"
  have u: "(2::rat) powi (?e - 52) = 1 / 2 ^ k"
  proof -
    have "?e - 52 = - (52 - ?e)" by simp
    then have "(2::rat) powi (?e - 52) = 2 powi (- (52 - ?e))" by simp
    also have "\<dots> = 1 / 2 powi (52 - ?e)" by (rule power_int_minus_divide)
    also have "\<dots> = 1 / 2 ^ k" using e_hi by (simp add: power_int_def k_def)
    finally show ?thesis .
  qed
  have "?x / 2 powi (?e - 52) = of_int (n * 2 ^ k)" by (simp add: u)
  then have "rne (?x / 2 powi (?e - 52)) = n * 2 ^ k" by (simp only: rne_of_int)
  then have "f64_round ?x = of_int (n * 2 ^ k) * (1 / 2 ^ k)"
    using xpos u by (simp only: f64_round_pos)
  then show ?thesis by simp
qed

lemma f64_round_2_53: "f64_round 9007199254740992 = 9007199254740992"
  by code_simp

lemma f64_round_int_ge:
  assumes "0 \<le> c"
  shows "f64_round (of_int c) = of_int c \<or> (2 ^ 53 \<le> c \<and> 2 ^ 53 \<le> f64_round (of_int c))"
proof (cases "c < 2 ^ 53")
  case True
  then show ?thesis using assms f64_round_of_int by simp
next
  case False
  then have c: "2 ^ 53 \<le> c" by simp
  then have "(of_int (2 ^ 53) :: rat) \<le> of_int c" by (simp only: of_int_le_iff)
  then have "(2 ^ 53 :: rat) \<le> of_int c" by simp
  then have "f64_round (2 ^ 53) \<le> f64_round (of_int c)" by (intro f64_round_mono) simp_all
  then show ?thesis using c by (simp add: f64_round_2_53)
qed

lemma f64_round_ge:
  assumes "0 < t" "f64_round t = t" "t \<le> x"
  shows "t \<le> f64_round x"
  using f64_round_mono[OF assms(1) assms(3)] assms(2) by simp

lemma f64_round_12: "f64_round (6 / 5) = 5404319552844595 / 4503599627370496"
  by code_simp

lemma f64_round_12_succ:
  "f64_round (5404319552844596 / 4503599627370496) = 5404319552844596 / 4503599627370496"
  by code_simp

lemma f64_round_07: "f64_round (7 / 10) = 6305039478318694 / 9007199254740992"
  by code_simp

lemma f64_round_07_succ:
  "f64_round (6305039478318695 / 9007199254740992) = 6305039478318695 / 9007199254740992"
  by code_simp

text \<open>The quotient of two sizes, as float64: when the exact quotient lies above
  a threshold \<open>p / q\<close> and \<open>t\<close> is a float64 below the quotient.\<close>

lemma ratio_above:
  assumes o: "0 < orig" "orig < 2 ^ 50" and c: "0 \<le> c"
    and t: "0 < t" "f64_round t = t" "t \<le> 8"
    and gap: "c < 2 ^ 53 \<Longrightarrow> t \<le> of_int c / of_int orig"
  shows "\<exists>q. f64_div (float64 c) (float64 orig) = Finite q \<and> t \<le> q"
proof -
  have oe: "f64_round (of_int orig) = of_int orig"
    using o by (intro f64_round_of_int) simp_all
  have opos: "(0::rat) < of_int orig" using o by simp
  have "t \<le> f64_round (of_int c) / of_int orig"
  proof (cases "c < 2 ^ 53")
    case True
    then have "f64_round (of_int c) = of_int c" using c by (intro f64_round_of_int) simp_all
    then show ?thesis using gap[OF True] by simp
  next
    case False
    then have big: "2 ^ 53 \<le> f64_round (of_int c)" using f64_round_int_ge[OF c] by auto
    have "(of_int orig :: rat) \<le> of_int (2 ^ 50)" using o by (simp only: of_int_le_iff) 
    then have "(of_int orig :: rat) * 8 \<le> 2 ^ 53" by simp
    then have "(of_int orig :: rat) * 8 \<le> f64_round (of_int c)" using big by linarith
    then have "8 \<le> f64_round (of_int c) / of_int orig"
      using opos by (simp add: pos_le_divide_eq mult.commute)
    then show ?thesis using t(3) by linarith
  qed
  then have "t \<le> f64_round (f64_round (of_int c) / of_int orig)"
    using t by (intro f64_round_ge) simp_all
  then show ?thesis using opos by (simp add: float64_def oe)
qed

lemma ratio_exact:
  assumes o: "0 < orig" "orig < 2 ^ 50" and c: "0 \<le> c" "c < 2 ^ 53"
  shows "f64_div (float64 c) (float64 orig) = Finite (f64_round (of_int c / of_int orig))"
proof -
  have oe: "f64_round (of_int orig) = of_int orig"
    using o by (intro f64_round_of_int) simp_all
  have ce: "f64_round (of_int c) = of_int c"
    using c by (intro f64_round_of_int) simp_all
  show ?thesis using o by (simp add: float64_def oe ce)
qed


section \<open>The commit record\<close>

lemma CreateCommit_record:
  assumes "fst (CreateCommit e cm r msg F) = Inr c"
  shows "FilesCount c = length F" and "set (Metadata c) = Path ` set F"
    and "Version c = GetCurrentVersion r + 1"
  using assms
  by (auto simp: CreateCommit_def Let_def split: if_splits prod.splits sum.splits)

lemma CreateCommit_lz4:
  assumes "F \<noteq> []" "shouldUseLZ4 F (GetCurrentVersion r + 1)"
  shows "fst (CreateCommit e cm r msg F) =
           map_sum (\<lambda>err. ''snapshot creation failed: '' @ err)
             (\<lambda>res. \<lparr> Hash = new_hash e, Message = msg, FilesCount = length F,
                       Version = GetCurrentVersion r + 1, Metadata = remdups (map Path F),
                       ParentHash = HEAD r,
                       SnapshotZip = (if Strategy res = ''zip'' then Some (OutputFile res) else None),
                       CompressionInfo = Some res \<rparr>)
             (fst (compressWithLZ4 e (storage r) F (GetCurrentVersion r + 1)))"
    and "storage (snd (CreateCommit e cm r msg F)) =
           snd (compressWithLZ4 e (storage r) F (GetCurrentVersion r + 1))"
  using assms
  by (auto simp: CreateCommit_def createSnapshot_def Let_def split: prod.splits sum.splits)

section \<open>The 1.2 bound of the LZ4 encoder\<close>

lemma write_files_size_nonneg:
  "0 \<le> n \<Longrightarrow> 0 \<le> snd (write_files e files (out, n))"
  by (induction files arbitrary: out n) (auto split: option.splits simp: Let_def)

lemma f64_less_12_iff:
  "f64_less (f64_const (6 / 5)) (Finite q) \<longleftrightarrow> 5404319552844595 / 4503599627370496 < q"
  unfolding f64_const_def f64_round_12 by (simp only: f64_less.simps)

lemma compressWithLZ4_ratio_cases:
  assumes w: "write_files e files ([], 0) = (stream, originalSize)"
    and nz: "originalSize \<noteq> 0"
    and bound: "originalSize < 2 ^ 50"
    and cs: "compressedSize = stat_size e (LZ4Frame stream)"
  shows "((of_int compressedSize :: rat) / of_int originalSize = 12 / 10 \<longrightarrow>
           (\<exists>r. compressWithLZ4 e fs files v =
                  (Inr r, fs((VersionsDir, Lz4Name v) \<mapsto> LZ4Frame stream)) \<and>
                Strategy r = ''lz4'' \<and> OutputFile r = Lz4Name v \<and>
                OriginalSize r = originalSize \<and> CompressedSize r = compressedSize)) \<and>
         ((of_int compressedSize :: rat) / of_int originalSize > 12 / 10 \<longrightarrow>
           (\<exists>msg. compressWithLZ4 e fs files v =
                  (Inl msg, fs((VersionsDir, Lz4Name v) := None))))"
proof -
  have "0 \<le> snd (write_files e files ([], 0))" by (rule write_files_size_nonneg) simp
  then have opos: "0 < originalSize" using w nz by simp
  have orat: "(0::rat) < of_int originalSize" using opos by simp
  show ?thesis
  proof (intro conjI impI)
    assume eq: "(of_int compressedSize :: rat) / of_int originalSize = 12 / 10"
    then have "(of_int compressedSize :: rat) * 10 = 12 * of_int originalSize"
      using orat by (simp add: field_simps)
    then have "(of_int (compressedSize * 10) :: rat) = of_int (12 * originalSize)" by simp
    then have ceq: "compressedSize * 10 = 12 * originalSize" by (simp only: of_int_eq_iff)
    then have c0: "0 < compressedSize" and c53: "compressedSize < 2 ^ 53"
      using opos bound by auto
    have "f64_div (float64 compressedSize) (float64 originalSize)
            = Finite (f64_round (6 / 5))"
      using ratio_exact[of originalSize compressedSize] opos bound c0 c53 eq by simp
    then show "\<exists>r. compressWithLZ4 e fs files v =
                  (Inr r, fs((VersionsDir, Lz4Name v) \<mapsto> LZ4Frame stream)) \<and>
                Strategy r = ''lz4'' \<and> OutputFile r = Lz4Name v \<and>
                OriginalSize r = originalSize \<and> CompressedSize r = compressedSize"
      using w nz c0 cs by (simp add: compressWithLZ4_def Let_def f64_const_def)
  next
    assume gt: "(12 / 10 :: rat) < of_int compressedSize / of_int originalSize"
    then have "(12 :: rat) * of_int originalSize < of_int compressedSize * 10"
      using orat by (simp add: field_simps)
    then have "(of_int (12 * originalSize) :: rat) < of_int (compressedSize * 10)" by simp
    then have clt: "12 * originalSize < compressedSize * 10" by (simp only: of_int_less_iff)
    then have c0: "0 \<le> compressedSize" using opos by simp
    let ?t = "5404319552844596 / 4503599627370496 :: rat"
    have gap: "?t \<le> of_int compressedSize / of_int originalSize"
    proof -
      have "6 * originalSize + 1 \<le> compressedSize * 5" using clt by simp
      moreover have "4 * originalSize \<le> 4503599627370496" using bound by simp
      ultimately have "5404319552844596 * originalSize \<le> compressedSize * 4503599627370496"
        by linarith
      then have "(of_int (5404319552844596 * originalSize) :: rat)
                   \<le> of_int (compressedSize * 4503599627370496)"
        by (simp only: of_int_le_iff)
      then show ?thesis using orat by (simp add: field_simps)
    qed
    obtain q where q: "f64_div (float64 compressedSize) (float64 originalSize) = Finite q"
      and tq: "?t \<le> q"
      using ratio_above[of originalSize compressedSize ?t] opos bound c0 gap f64_round_12_succ
      by auto
    have "(5404319552844595 / 4503599627370496 :: rat) < q" using tq by linarith
    then have "f64_less (f64_const (6 / 5)) (Finite q)"
      by (simp only: f64_less_12_iff)
    then show "\<exists>msg. compressWithLZ4 e fs files v =
                  (Inl msg, fs((VersionsDir, Lz4Name v) := None))"
      using w nz q cs by (simp add: compressWithLZ4_def Let_def)
  qed
qed

lemma show_nat_10: "show_nat 10 = ''10''"
  by code_simp

lemma example_stream:
  "write_files (work_env sz) [logo_fig] ([], 0) = (''FILE:logo.fig:10'' @ [CHR 0x0A] @ ''0123456789'', 10)"
  by code_simp

text \<open>
  C4. For an LZ4 encode with non-zero original size (below \<open>2^50\<close> bytes, where the
  float64 quotient decides the comparison exactly): when the compressed size is exactly
  1.2 times the original size, the artifact \<open>versions/v<n>.lz4\<close> is kept, a
  \<open>CompressionResult\<close> is returned, and a commit that uses the LZ4 encode is
  accepted; when the quotient is greater than 1.2, the artifact is removed, the encode
  returns an error and no \<open>CompressionResult\<close>, and such a commit fails.
\<close>

theorem compressWithLZ4_ratio_boundary:
  assumes w: "write_files e files ([], 0) = (stream, originalSize)"
    and nz: "originalSize \<noteq> 0"
    and bound: "originalSize < 2 ^ 50"
    and cs: "compressedSize = stat_size e (LZ4Frame stream)"
  shows "((of_int compressedSize :: rat) / of_int originalSize = 12 / 10 \<longrightarrow>
           (\<exists>res. compressWithLZ4 e fs files v =
                  (Inr res, fs((VersionsDir, Lz4Name v) \<mapsto> LZ4Frame stream)) \<and>
                Strategy res = ''lz4'' \<and> OutputFile res = Lz4Name v \<and>
                OriginalSize res = originalSize \<and> CompressedSize res = compressedSize) \<and>
           (shouldUseLZ4 files (GetCurrentVersion r + 1) \<longrightarrow>
              (\<exists>commit. fst (CreateCommit e cm r msg files) = Inr commit \<and>
                 Version commit = GetCurrentVersion r + 1 \<and>
                 map_option Strategy (CompressionInfo commit) = Some ''lz4'') \<and>
              storage (snd (CreateCommit e cm r msg files))
                (VersionsDir, Lz4Name (GetCurrentVersion r + 1)) = Some (LZ4Frame stream))) \<and>
         ((of_int compressedSize :: rat) / of_int originalSize > 12 / 10 \<longrightarrow>
           (\<exists>err. compressWithLZ4 e fs files v =
                  (Inl err, fs((VersionsDir, Lz4Name v) := None))) \<and>
           (shouldUseLZ4 files (GetCurrentVersion r + 1) \<longrightarrow>
              (\<exists>err. fst (CreateCommit e cm r msg files) = Inl err) \<and>
              storage (snd (CreateCommit e cm r msg files))
                (VersionsDir, Lz4Name (GetCurrentVersion r + 1)) = None))"
proof -
  have ne: "files \<noteq> []" using w nz by auto
  note cases = compressWithLZ4_ratio_cases[OF w nz bound cs]
  show ?thesis
  proof (intro conjI impI)
    assume eq: "(of_int compressedSize :: rat) / of_int originalSize = 12 / 10"
    show "\<exists>res. compressWithLZ4 e fs files v =
                  (Inr res, fs((VersionsDir, Lz4Name v) \<mapsto> LZ4Frame stream)) \<and>
                Strategy res = ''lz4'' \<and> OutputFile res = Lz4Name v \<and>
                OriginalSize res = originalSize \<and> CompressedSize res = compressedSize"
      using cases[of fs v] eq by blast
    assume l: "shouldUseLZ4 files (GetCurrentVersion r + 1)"
    from cases[of "storage r" "GetCurrentVersion r + 1"] eq
    obtain res where res: "compressWithLZ4 e (storage r) files (GetCurrentVersion r + 1) =
        (Inr res, (storage r)((VersionsDir, Lz4Name (GetCurrentVersion r + 1)) \<mapsto> LZ4Frame stream))"
      and s: "Strategy res = ''lz4''" by blast
    have res': "compressWithLZ4 e (storage r) files (Suc (GetCurrentVersion r)) =
        (Inr res, (storage r)((VersionsDir, Lz4Name (Suc (GetCurrentVersion r))) \<mapsto> LZ4Frame stream))"
      using res by simp
    show "\<exists>commit. fst (CreateCommit e cm r msg files) = Inr commit \<and>
                 Version commit = GetCurrentVersion r + 1 \<and>
                 map_option Strategy (CompressionInfo commit) = Some ''lz4''"
      unfolding CreateCommit_lz4(1)[OF ne l] by (simp add: res' s)
    show "storage (snd (CreateCommit e cm r msg files))
            (VersionsDir, Lz4Name (GetCurrentVersion r + 1)) = Some (LZ4Frame stream)"
      unfolding CreateCommit_lz4(2)[OF ne l] by (simp add: res')
  next
    assume gt: "(12 / 10 :: rat) < of_int compressedSize / of_int originalSize"
    show "\<exists>err. compressWithLZ4 e fs files v = (Inl err, fs((VersionsDir, Lz4Name v) := None))"
      using cases[of fs v] gt by blast
    assume l: "shouldUseLZ4 files (GetCurrentVersion r + 1)"
    from cases[of "storage r" "GetCurrentVersion r + 1"] gt
    obtain err where res: "compressWithLZ4 e (storage r) files (GetCurrentVersion r + 1) =
        (Inl err, (storage r)((VersionsDir, Lz4Name (GetCurrentVersion r + 1)) := None))"
      by blast
    have res': "compressWithLZ4 e (storage r) files (Suc (GetCurrentVersion r)) =
        (Inl err, (storage r)((VersionsDir, Lz4Name (Suc (GetCurrentVersion r))) := None))"
      using res by simp
    show "\<exists>err. fst (CreateCommit e cm r msg files) = Inl err"
      unfolding CreateCommit_lz4(1)[OF ne l] by (simp add: res')
    show "storage (snd (CreateCommit e cm r msg files))
            (VersionsDir, Lz4Name (GetCurrentVersion r + 1)) = None"
      unfolding CreateCommit_lz4(2)[OF ne l] by (simp add: res')
  qed
qed

theorem compressWithLZ4_ratio_boundary_witness:
  "(\<exists>r. compressWithLZ4 (work_env (\<lambda>c. 12)) (\<lambda>p. None) [logo_fig] 1 =
          (Inr r, (\<lambda>p. None)((VersionsDir, Lz4Name 1) \<mapsto>
                     LZ4Frame (''FILE:logo.fig:10'' @ [CHR 0x0A] @ ''0123456789''))) \<and>
        Strategy r = ''lz4'' \<and> OutputFile r = Lz4Name 1 \<and>
        OriginalSize r = 10 \<and> CompressedSize r = 12) \<and>
   (\<exists>commit. fst (CreateCommit (work_env (\<lambda>c. 12)) NewCommitManager empty_repo ''init'' [logo_fig])
        = Inr commit \<and> Version commit = GetCurrentVersion empty_repo + 1 \<and>
      map_option Strategy (CompressionInfo commit) = Some ''lz4'') \<and>
   (\<exists>msg. compressWithLZ4 (work_env (\<lambda>c. 13)) (\<lambda>p. None) [logo_fig] 1 =
          (Inl msg, (\<lambda>p. None)((VersionsDir, Lz4Name 1) := None))) \<and>
   (\<exists>err. fst (CreateCommit (work_env (\<lambda>c. 13)) NewCommitManager empty_repo ''init'' [logo_fig])
        = Inl err)"
proof -
  have s12: "(12::int) = stat_size (work_env (\<lambda>c. 12)) (LZ4Frame (''FILE:logo.fig:10'' @ [CHR 0x0A] @ ''0123456789''))"
    by (simp add: work_env_def)
  have s13: "(13::int) = stat_size (work_env (\<lambda>c. 13)) (LZ4Frame (''FILE:logo.fig:10'' @ [CHR 0x0A] @ ''0123456789''))"
    by (simp add: work_env_def)
  have nz: "(10::int) \<noteq> 0" and b: "(10::int) < 2 ^ 50" by simp_all
  have A: "(rat_of_int 12 / rat_of_int 10 = 12 / 10)" by simp
  have B: "(12 / 10 < rat_of_int 13 / rat_of_int 10)" by simp
  have l: "shouldUseLZ4 [logo_fig] (GetCurrentVersion empty_repo + 1)" by code_simp
  from compressWithLZ4_ratio_boundary[OF example_stream nz b s12,
         of "\<lambda>p. None" 1 empty_repo NewCommitManager "''init''"] A l
       compressWithLZ4_ratio_boundary[OF example_stream nz b s13,
         of "\<lambda>p. None" 1 empty_repo NewCommitManager "''init''"] B
  show ?thesis by blast
qed

section \<open>Strategy selection\<close>






section \<open>The 0.7 bound of a delta\<close>

text \<open>
  C5. A smart delta of 9 bytes for a staged PSD of 10 bytes has ratio 0.9 and is rejected:
  the commit is encoded again with LZ4. The clean-up removes
  \<open>objects/deltas/v2_from_v1.psd_smart\<close>, while the delta was written to
  \<open>cache/v2_from_v1.psd_smart\<close>, which is still there afterwards.
\<close>

theorem createSnapshot_keeps_rejected_delta:
  "map_sum id (\<lambda>r. (Strategy r, f64_le (CompressionRatio r) (f64_const (7 / 10))))
     (fst (createDelta (work_env delta_9_lz4_8) (storage_with 1) [design_psd] 2 1))
     = Inr (''psd_smart'', False) \<and>
   map_sum id Strategy
     (fst (createSnapshot (work_env delta_9_lz4_8) NewCommitManager (storage_with 1) [design_psd] 2 1))
     = Inr ''lz4'' \<and>
   fileExists
     (snd (createSnapshot (work_env delta_9_lz4_8) NewCommitManager (storage_with 1) [design_psd] 2 1))
     (CacheDir, PsdSmartName 2 1) \<and>
   fileExists
     (snd (createSnapshot (work_env delta_9_lz4_8) NewCommitManager (storage_with 1) [design_psd] 2 1))
     (VersionsDir, Lz4Name 2)"
  by code_simp

section \<open>Staged files that cannot be read\<close>






section \<open>Round trip of the LZ4 container\<close>

lemma write_files_fst:
  "fst (write_files e F (out, n)) = out @ concat (map (record_bytes e) F)"
  by (induction F arbitrary: out n) (auto simp: record_bytes_def Let_def split: option.splits)

lemma is_digit_digit_char: "d < 10 \<Longrightarrow> is_digit (digit_char d)"
  by (simp add: is_digit_def digit_char_def)

lemma of_char_digit_char: "d < 10 \<Longrightarrow> (of_char (digit_char d) :: nat) = 48 + d"
  by (simp add: digit_char_def)

lemma show_nat_digits: "\<forall>c \<in> set (show_nat n). is_digit c"
proof (induction n rule: show_nat.induct)
  case (1 n)
  show ?case
  proof (cases "n < 10")
    case True
    then show ?thesis by (subst show_nat.simps) (simp add: is_digit_digit_char)
  next
    case False
    then show ?thesis using 1
      by (subst show_nat.simps) (simp add: is_digit_digit_char)
  qed
qed

lemma wrap64_id: "0 \<le> x \<Longrightarrow> x < 2 ^ 63 \<Longrightarrow> wrap64 x = x"
  by (simp add: wrap64_def)

lemma parseInt64_loop_append:
  "\<forall>c \<in> set s. is_digit c \<Longrightarrow>
   parseInt64_loop (s @ t) r = parseInt64_loop t (parseInt64_loop s r)"
  by (induction s arbitrary: r) auto

lemma parseInt64_loop_show_nat:
  "n < 2 ^ 63 \<Longrightarrow> parseInt64_loop (show_nat n) 0 = int n"
proof (induction n rule: show_nat.induct)
  case (1 n)
  show ?case
  proof (cases "n < 10")
    case True
    then show ?thesis
      by (subst show_nat.simps)
         (simp add: is_digit_digit_char of_char_digit_char wrap64_id)
  next
    case False
    have small: "n div 10 < 2 ^ 63" using "1.prems" by simp
    have ih: "parseInt64_loop (show_nat (n div 10)) 0 = int (n div 10)"
      using "1.IH"[OF False small] .
    have d: "n mod 10 < 10" by simp
    have "int (n div 10) * 10 + int (n mod 10) = int n"
      by (simp add: zdiv_int zmod_int)
    moreover have "int n < 2 ^ 63" using "1.prems" by simp
    ultimately have w: "wrap64 (int (n div 10) * 10 + int (n mod 10)) = int n"
      by (simp add: wrap64_id)
    show ?thesis
      using False w
      by (subst show_nat.simps)
         (simp add: parseInt64_loop_append show_nat_digits ih
            is_digit_digit_char[OF d] of_char_digit_char[OF d])
  qed
qed

lemma parseInt64_show_nat: "n < 2 ^ 63 \<Longrightarrow> parseInt64 (show_nat n) = int n"
  by (simp add: parseInt64_def parseInt64_loop_show_nat)

lemma strings_Split_no_sep: "sep \<notin> set w \<Longrightarrow> strings_Split w sep = [w]"
  by (induction w) auto

lemma strings_Split_append:
  "sep \<notin> set w \<Longrightarrow> strings_Split (w @ sep # rest) sep = w # strings_Split rest sep"
  by (induction w) auto

lemma is_digit_not_colon: "is_digit c \<Longrightarrow> c \<noteq> CHR '':''"
  by (auto simp: is_digit_def)

lemma is_digit_not_newline: "is_digit c \<Longrightarrow> c \<noteq> newline"
  by (auto simp: is_digit_def newline_def)

lemma header_split:
  assumes "CHR '':'' \<notin> set path"
  shows "strings_Split (''FILE:'' @ path @ '':'' @ show_nat n) (CHR '':'') =
           [''FILE'', path, show_nat n]"
proof -
  have d: "CHR '':'' \<notin> set (show_nat n)"
    using show_nat_digits[of n] is_digit_not_colon by blast
  have "strings_Split (''FILE'' @ CHR '':'' # (path @ CHR '':'' # show_nat n)) (CHR '':'') =
          ''FILE'' # strings_Split (path @ CHR '':'' # show_nat n) (CHR '':'')"
    by (rule strings_Split_append) simp
  also have "strings_Split (path @ CHR '':'' # show_nat n) (CHR '':'') =
          path # strings_Split (show_nat n) (CHR '':'')"
    using assms by (rule strings_Split_append)
  also have "strings_Split (show_nat n) (CHR '':'') = [show_nat n]"
    using d by (rule strings_Split_no_sep)
  finally show ?thesis by simp
qed


lemma header_no_newline:
  assumes "newline \<notin> set path"
  shows "\<forall>x \<in> set (''FILE:'' @ path @ '':'' @ show_nat n). x \<noteq> newline"
  using assms show_nat_digits[of n] is_digit_not_newline
  by (auto simp: newline_def)

lemma extract_loop_step:
  assumes "s \<noteq> []" "newline \<in> set s"
    and "takeWhile (\<lambda>c. c \<noteq> newline) s = h"
    and "tl (dropWhile (\<lambda>c. c \<noteq> newline) s) = after"
    and "strings_HasPrefix h ''FILE:''"
    and "strings_Split h (CHR '':'') = [a, p, z]"
    and "parseInt64 z = n" "0 < n" "nat n \<le> length after"
  shows "extractFilesFromStream_loop (\<lambda>p. False) s (R, S) =
         extractFilesFromStream_loop (\<lambda>p. False) (drop (nat n) after)
           (R @ [(p, take (nat n) after)], S)"
proof -
  have a: "\<not> n \<le> 0" and b: "\<not> length after < nat n" using assms(8,9) by auto
  show ?thesis
    by (subst extractFilesFromStream_loop.simps)
       (simp add: assms(1-7) a b Let_def)
qed

lemma extract_one_record:
  assumes colon: "CHR '':'' \<notin> set path" and nl: "newline \<notin> set path"
    and ne: "c \<noteq> []" and small: "length c < 2 ^ 63"
  shows "extractFilesFromStream_loop (\<lambda>p. False) (file_header path (length c) @ c @ rest) (R, S) =
         extractFilesFromStream_loop (\<lambda>p. False) rest (R @ [(path, c)], S)"
proof -
  let ?h = "''FILE:'' @ path @ '':'' @ show_nat (length c)"
  let ?s = "file_header path (length c) @ c @ rest"
  have s: "?s = ?h @ newline # (c @ rest)" by (simp add: file_header_def newline_def)
  have hn: "\<And>x. x \<in> set ?h \<Longrightarrow> x \<noteq> newline" using header_no_newline[OF nl] by blast
  have tw: "takeWhile (\<lambda>c. c \<noteq> newline) ?s = ?h"
    unfolding s using hn by (subst takeWhile_append2) auto
  have dw: "tl (dropWhile (\<lambda>c. c \<noteq> newline) ?s) = c @ rest"
    unfolding s using hn by (subst dropWhile_append2) auto
  have mem: "newline \<in> set ?s" unfolding s by simp
  have nonempty: "?s \<noteq> []" unfolding s by simp
  have pre: "strings_HasPrefix ?h ''FILE:''" by (simp add: strings_HasPrefix_def)
  have parts: "strings_Split ?h (CHR '':'') = [''FILE'', path, show_nat (length c)]"
    using header_split[OF colon] .
  have sz: "parseInt64 (show_nat (length c)) = int (length c)"
    using small by (rule parseInt64_show_nat)
  have pos: "0 < int (length c)" using ne by simp
  have fits: "nat (int (length c)) \<le> length (c @ rest)" by simp
  have "extractFilesFromStream_loop (\<lambda>p. False) ?s (R, S) =
        extractFilesFromStream_loop (\<lambda>p. False) (drop (nat (int (length c))) (c @ rest))
           (R @ [(path, take (nat (int (length c))) (c @ rest))], S)"
    by (rule extract_loop_step[OF nonempty mem tw dw pre parts sz pos fits])
  then show ?thesis by (simp)
qed

lemma extract_records:
  assumes "\<forall>f \<in> set F. \<exists>c. read_file e (AbsolutePath f) = Some c \<and> c \<noteq> [] \<and> length c < 2 ^ 63"
    and "\<forall>f \<in> set F. CHR '':'' \<notin> set (Path f) \<and> newline \<notin> set (Path f)"
  shows "extractFilesFromStream_loop (\<lambda>p. False) (concat (map (record_bytes e) F)) (R, S) =
         (R @ map (\<lambda>f. (Path f, the (read_file e (AbsolutePath f)))) F, S)"
  using assms
proof (induction F arbitrary: R)
  case Nil
  show ?case by (subst extractFilesFromStream_loop.simps) simp
next
  case (Cons f F)
  from Cons.prems(1) obtain c where c: "read_file e (AbsolutePath f) = Some c" "c \<noteq> []"
    "length c < 2 ^ 63" by auto
  have p: "CHR '':'' \<notin> set (Path f)" "newline \<notin> set (Path f)" using Cons.prems(2) by auto
  have rb: "record_bytes e f = file_header (Path f) (length c) @ c"
    by (simp add: record_bytes_def c)
  have "extractFilesFromStream_loop (\<lambda>p. False) (concat (map (record_bytes e) (f # F))) (R, S) =
        extractFilesFromStream_loop (\<lambda>p. False) (concat (map (record_bytes e) F))
          (R @ [(Path f, c)], S)"
    using extract_one_record[OF p c(2) c(3)] by (simp add: rb)
  also have "\<dots> = ((R @ [(Path f, c)]) @ map (\<lambda>f. (Path f, the (read_file e (AbsolutePath f)))) F, S)"
    using Cons.prems by (intro Cons.IH) auto
  finally show ?case by (simp add: c)
qed

lemma digits_value_append:
  "digits_value (s @ t) r = digits_value t (digits_value s r)"
  by (induction s arbitrary: r) auto

lemma digits_value_show_nat: "digits_value (show_nat n) 0 = int n"
proof (induction n rule: show_nat.induct)
  case (1 n)
  show ?case
  proof (cases "n < 10")
    case True
    then show ?thesis by (subst show_nat.simps) (simp add: of_char_digit_char)
  next
    case False
    have ih: "digits_value (show_nat (n div 10)) 0 = int (n div 10)"
      using "1.IH"[OF False] .
    have d: "n mod 10 < 10" by simp
    have "int (n div 10) * 10 + int (n mod 10) = int n"
      by (simp add: zdiv_int zmod_int)
    then show ?thesis
      using False
      by (subst show_nat.simps) (simp add: digits_value_append ih of_char_digit_char[OF d])
  qed
qed

lemma show_nat_Cons: "\<exists>c cs. show_nat n = c # cs"
proof (induction n rule: show_nat.induct)
  case (1 n)
  show ?case
  proof (cases "n < 10")
    case True
    then show ?thesis by (subst show_nat.simps) simp
  next
    case False
    then show ?thesis using "1.IH"[OF False] by (subst show_nat.simps) auto
  qed
qed

lemma strconv_ParseInt_show_nat:
  assumes "n < 2 ^ 63"
  shows "strconv_ParseInt (show_nat n) = Some (int n)"
proof -
  obtain c cs where s: "show_nat n = c # cs" using show_nat_Cons by blast
  have dig: "\<forall>x \<in> set (c # cs). is_digit x" using show_nat_digits[of n] s by simp
  then have c: "c \<noteq> CHR ''-''" "c \<noteq> CHR ''+''" by (auto simp: is_digit_def)
  have all: "list_all is_digit (c # cs)" using dig by (simp add: list_all_iff)
  have v: "digits_value (c # cs) 0 = int n" using digits_value_show_nat[of n] s by simp
  have r: "\<not> int n < - (2 ^ 63)" "\<not> (2 ^ 63 \<le> int n)" using assms by auto
  show ?thesis
    unfolding strconv_ParseInt_def s using c all v r
    by (simp add: Let_def del: digits_value.simps)
qed

lemma create_loop_step:
  assumes "s \<noteq> []" "newline \<in> set s"
    and "takeWhile (\<lambda>c. c \<noteq> newline) s = h"
    and "tl (dropWhile (\<lambda>c. c \<noteq> newline) s) = after"
    and "strings_HasPrefix h ''FILE:''"
    and "strings_Split h (CHR '':'') = [a, p, z]"
    and "strconv_ParseInt z = Some n" "0 < n" "nat n \<le> length after"
  shows "createFileFromStructuredData_loop s t =
         (if p = t \<or> filepath_Base p = filepath_Base t then Inr (take (nat n) after)
          else createFileFromStructuredData_loop (drop (nat n) after) t)"
proof -
  have a: "\<not> n \<le> 0" and b: "\<not> length after < nat n" using assms(8,9) by auto
  show ?thesis
    by (subst createFileFromStructuredData_loop.simps)
       (simp add: assms(1-7) a b Let_def)
qed

lemma create_one_record:
  assumes colon: "CHR '':'' \<notin> set path" and nl: "newline \<notin> set path"
    and ne: "c \<noteq> []" and small: "length c < 2 ^ 63"
  shows "createFileFromStructuredData_loop (file_header path (length c) @ c @ rest) t =
         (if path = t \<or> filepath_Base path = filepath_Base t then Inr c
          else createFileFromStructuredData_loop rest t)"
proof -
  let ?h = "''FILE:'' @ path @ '':'' @ show_nat (length c)"
  let ?s = "file_header path (length c) @ c @ rest"
  have s: "?s = ?h @ newline # (c @ rest)" by (simp add: file_header_def newline_def)
  have hn: "\<And>x. x \<in> set ?h \<Longrightarrow> x \<noteq> newline" using header_no_newline[OF nl] by blast
  have tw: "takeWhile (\<lambda>c. c \<noteq> newline) ?s = ?h"
    unfolding s using hn by (subst takeWhile_append2) auto
  have dw: "tl (dropWhile (\<lambda>c. c \<noteq> newline) ?s) = c @ rest"
    unfolding s using hn by (subst dropWhile_append2) auto
  have mem: "newline \<in> set ?s" unfolding s by simp
  have nonempty: "?s \<noteq> []" unfolding s by simp
  have pre: "strings_HasPrefix ?h ''FILE:''" by (simp add: strings_HasPrefix_def)
  have parts: "strings_Split ?h (CHR '':'') = [''FILE'', path, show_nat (length c)]"
    using header_split[OF colon] .
  have sz: "strconv_ParseInt (show_nat (length c)) = Some (int (length c))"
    using small by (rule strconv_ParseInt_show_nat)
  have pos: "0 < int (length c)" using ne by simp
  have fits: "nat (int (length c)) \<le> length (c @ rest)" by simp
  have "createFileFromStructuredData_loop ?s t =
        (if path = t \<or> filepath_Base path = filepath_Base t
         then Inr (take (nat (int (length c))) (c @ rest))
         else createFileFromStructuredData_loop (drop (nat (int (length c))) (c @ rest)) t)"
    by (rule create_loop_step[OF nonempty mem tw dw pre parts sz pos fits])
  then show ?thesis by simp
qed

lemma create_records:
  assumes "\<forall>f \<in> set F. \<exists>c. read_file e (AbsolutePath f) = Some c \<and> c \<noteq> [] \<and> length c < 2 ^ 63"
    and "\<forall>f \<in> set F. CHR '':'' \<notin> set (Path f) \<and> newline \<notin> set (Path f)"
  shows "createFileFromStructuredData_loop (concat (map (record_bytes e) F)) t =
         (case find (\<lambda>g. Path g = t \<or> filepath_Base (Path g) = filepath_Base t) F of
            None \<Rightarrow> Inl ''file not found in structured data''
          | Some g \<Rightarrow> Inr (the (read_file e (AbsolutePath g))))"
  using assms
proof (induction F)
  case Nil
  show ?case by (subst createFileFromStructuredData_loop.simps) simp
next
  case (Cons f F)
  from Cons.prems(1) obtain c where c: "read_file e (AbsolutePath f) = Some c" "c \<noteq> []"
    "length c < 2 ^ 63" by auto
  have p: "CHR '':'' \<notin> set (Path f)" "newline \<notin> set (Path f)" using Cons.prems(2) by auto
  have rb: "record_bytes e f = file_header (Path f) (length c) @ c"
    by (simp add: record_bytes_def c)
  have ih: "createFileFromStructuredData_loop (concat (map (record_bytes e) F)) t =
         (case find (\<lambda>g. Path g = t \<or> filepath_Base (Path g) = filepath_Base t) F of
            None \<Rightarrow> Inl ''file not found in structured data''
          | Some g \<Rightarrow> Inr (the (read_file e (AbsolutePath g))))"
    using Cons.prems by (intro Cons.IH) auto
  show ?case
    using create_one_record[OF p c(2) c(3), of "concat (map (record_bytes e) F)" t]
    by (simp add: rb ih c)
qed

lemma find_own_base:
  assumes "distinct (map (\<lambda>f. filepath_Base (Path f)) F)" "f \<in> set F"
  shows "find (\<lambda>g. Path g = Path f \<or> filepath_Base (Path g) = filepath_Base (Path f)) F = Some f"
  using assms
proof (induction F)
  case Nil
  then show ?case by simp
next
  case (Cons g F)
  show ?case
  proof (cases "g = f")
    case True
    then show ?thesis by simp
  next
    case False
    then have f: "f \<in> set F" using Cons.prems(2) by simp
    have "filepath_Base (Path g) \<noteq> filepath_Base (Path f)"
      using Cons.prems(1) f by auto
    then have "\<not> (Path g = Path f \<or> filepath_Base (Path g) = filepath_Base (Path f))" by auto
    then show ?thesis using Cons.IH f Cons.prems(1) by simp
  qed
qed

lemma map_of_own_path:
  assumes "distinct (map (\<lambda>f. filepath_Base (Path f)) F)" "f \<in> set F"
  shows "map_of (map (\<lambda>f. (Path f, h f)) F) (Path f) = Some (h f)"
  using assms
proof (induction F)
  case Nil
  then show ?case by simp
next
  case (Cons g F)
  show ?case
  proof (cases "g = f")
    case True
    then show ?thesis by simp
  next
    case False
    then have f: "f \<in> set F" using Cons.prems(2) by simp
    have "filepath_Base (Path g) \<noteq> filepath_Base (Path f)"
      using Cons.prems(1) f by auto
    then have "Path g \<noteq> Path f" by auto
    then show ?thesis using Cons.IH f Cons.prems(1) by simp
  qed
qed

lemma restore_metadata_files_all:
  assumes "\<forall>t \<in> set names. createFileFromStructuredData data t = Inr (g t)"
  shows "restore_metadata_files data names (res, wd) =
           (res\<lparr> RestoredFiles := RestoredFiles res @ names \<rparr>,
            \<lambda>p. if p \<in> set names then Some (g p) else wd p)"
  using assms
proof (induction names arbitrary: res wd)
  case Nil
  show ?case by simp
next
  case (Cons t names)
  have t: "createFileFromStructuredData data t = Inr (g t)" using Cons.prems by simp
  have rest: "\<forall>t \<in> set names. createFileFromStructuredData data t = Inr (g t)"
    using Cons.prems by simp
  show ?case
    by (simp add: t Cons.IH[OF rest] fun_eq_iff)
qed

lemma createBsdiffDelta_strategy:
  "fst (createBsdiffDelta e fs F V B) = Inr res \<Longrightarrow> Strategy res = ''bsdiff''"
  by (auto simp: createBsdiffDelta_def calculateCompressionResult_def Let_def
      split: option.splits)

lemma createPSDSmartDelta_strategy:
  "fst (createPSDSmartDelta e fs F V B) = Inr res \<Longrightarrow>
   Strategy res = ''bsdiff'' \<or> Strategy res = ''psd_smart''"
  by (auto simp: createPSDSmartDelta_def fallbackToBinaryDelta_def createSmartDeltaFile_def
      Let_def dest: createBsdiffDelta_strategy split: option.splits prod.splits sum.splits if_splits)

lemma createDelta_strategy:
  "fst (createDelta e fs F V B) = Inr res \<Longrightarrow>
   Strategy res = ''bsdiff'' \<or> Strategy res = ''psd_smart''"
  by (auto simp: createDelta_def Let_def dest: createBsdiffDelta_strategy createPSDSmartDelta_strategy
      split: if_splits)

lemma compressWithLZ4_artifact:
  "fst (compressWithLZ4 e fs F V) = Inr res \<Longrightarrow>
   snd (compressWithLZ4 e fs F V) (VersionsDir, Lz4Name V) =
     Some (LZ4Frame (fst (write_files e F ([], 0)))) \<and> OutputFile res = Lz4Name V"
  by (auto simp: compressWithLZ4_def Let_def split: prod.splits if_splits)

lemma createSnapshot_lz4_artifact:
  assumes "fst (createSnapshot e cm fs F V B) = Inr res" "Strategy res = ''lz4''"
  shows "snd (createSnapshot e cm fs F V B) (VersionsDir, Lz4Name V) =
           Some (LZ4Frame (fst (write_files e F ([], 0)))) \<and> OutputFile res = Lz4Name V"
proof -
  obtain dres fs1 where d: "createDelta e fs F V B = (dres, fs1)" by (cases "createDelta e fs F V B")
  show ?thesis
  proof (cases dres)
    case (Inl err)
    then show ?thesis
      using assms d compressWithLZ4_artifact[of e _ F V res]
      by (auto simp: createSnapshot_def split: if_splits)
  next
    case (Inr dr)
    have "Strategy dr \<noteq> ''lz4''" using createDelta_strategy[of e fs F V B dr] d Inr by auto
    then show ?thesis
      using assms d Inr compressWithLZ4_artifact[of e _ F V res]
      by (auto simp: createSnapshot_def split: if_splits)
  qed
qed

lemma CreateCommit_lz4_artifact:
  assumes "fst (CreateCommit e cm r msg F) = Inr c"
    and "map_option Strategy (CompressionInfo c) = Some ''lz4''"
  shows "storage (snd (CreateCommit e cm r msg F)) (VersionsDir, Lz4Name (Version c)) =
           Some (LZ4Frame (fst (write_files e F ([], 0))))"
    and "map_option OutputFile (CompressionInfo c) = Some (Lz4Name (Version c))"
    and "map_of (commits_dir (snd (CreateCommit e cm r msg F))) (Version c) = Some c"
proof -
  let ?V = "GetCurrentVersion r + 1"
  let ?snap = "createSnapshot e cm (storage r) F ?V (GetCurrentVersion r)"
  obtain x1 x2 where snap: "?snap = (x1, x2)" by (cases ?snap)
  have ne: "F \<noteq> []" using assms(1) by (auto simp: CreateCommit_def)
  from assms(1) snap ne obtain res where res: "x1 = Inr res"
    by (cases x1) (auto simp: CreateCommit_def Let_def)
  have c: "c = \<lparr> Hash = new_hash e, Message = msg, FilesCount = length F, Version = ?V,
                  Metadata = remdups (map Path F), ParentHash = HEAD r,
                  SnapshotZip = (if Strategy res = ''zip'' then Some (OutputFile res) else None),
                  CompressionInfo = Some res \<rparr>"
    using assms(1) snap ne res by (simp add: CreateCommit_def Let_def)
  have s: "Strategy res = ''lz4''" using assms(2) c by simp
  have art: "x2 (VersionsDir, Lz4Name ?V) = Some (LZ4Frame (fst (write_files e F ([], 0)))) \<and>
             OutputFile res = Lz4Name ?V"
    using createSnapshot_lz4_artifact[of e cm "storage r" F ?V "GetCurrentVersion r" res] snap res s
    by simp
  have r': "snd (CreateCommit e cm r msg F) =
              r\<lparr> storage := x2, commits_dir := saveCommitMetadata c (commits_dir r),
                 HEAD := new_hash e \<rparr>"
    using snap ne res c by (simp add: CreateCommit_def Let_def)
  have v: "Version c = ?V" using c by simp
  show "storage (snd (CreateCommit e cm r msg F)) (VersionsDir, Lz4Name (Version c)) =
           Some (LZ4Frame (fst (write_files e F ([], 0))))"
    unfolding r' v using art by simp
  show "map_option OutputFile (CompressionInfo c) = Some (Lz4Name (Version c))"
    unfolding v using art c by simp
  show "map_of (commits_dir (snd (CreateCommit e cm r msg F))) (Version c) = Some c"
    unfolding r' by (simp add: saveCommitMetadata_def)
qed

lemma extractFromLZ4_all:
  assumes "storage r (d, Lz4Name v) = Some (LZ4Frame data)"
    and "map_of (commits_dir r) v = Some commit"
    and "\<forall>t \<in> set (Metadata commit). createFileFromStructuredData data t = Inr (g t)"
  shows "extractFromLZ4 r (d, Lz4Name v) (res, wd) =
           Inr (res\<lparr> RestoredFiles := RestoredFiles res @ Metadata commit \<rparr>,
                \<lambda>p. if p \<in> set (Metadata commit) then Some (g p) else wd p)"
  using assms(1,2) restore_metadata_files_all[OF assms(3), of res wd]
  by (simp add: extractFromLZ4_def)

lemma performFastRestore_versions:
  assumes "CompressionInfo commit = Some ci" "Strategy ci = ''lz4''" "OutputFile ci = Lz4Name v"
    and "storage r (VersionsDir, Lz4Name v) = Some (LZ4Frame data)"
    and "map_of (commits_dir r) v = Some c'"
    and "\<forall>t \<in> set (Metadata c'). createFileFromStructuredData data t = Inr (g t)"
  shows "performFastRestore x r commit version wd =
           Inr (\<lparr> RestoredFiles = Metadata c', SkippedFiles = [], ErrorFiles = [],
                   RestoreMethod = ''versions'' \<rparr>,
                \<lambda>p. if p \<in> set (Metadata c') then Some (g p) else wd p)"
  using assms(1-4) extractFromLZ4_all[OF assms(4,5,6)]
  by (simp add: performFastRestore_def tryVersionRestore_def fileExists_def Let_def)

text \<open>
  C2, amended. For staged files that are not empty (and shorter than \<open>2^63\<close> bytes)
  and whose relative paths contain neither \<open>:\<close> nor a line feed, decoding the stream
  the LZ4 encoder writes yields the same relative paths with the same contents.
  The stream decoder \<open>extractFilesFromStream\<close>, which reads the Zstd copy of the
  container, yields them in the encoder's insertion order and skips nothing. The decoder
  of \<open>v<n>.lz4\<close> itself, \<open>extractFromLZ4\<close> with
  \<open>createFileFromStructuredData\<close>, looks a file up by its path or by its base
  name: when the base names of the staged files are pairwise distinct, it finds every
  staged file with its contents; for a commit record whose metadata names the staged
  paths, in any order, it writes each of them with its contents and reports no error;
  and restoring a committed version whose strategy is \<open>lz4\<close> writes exactly the
  staged files.
\<close>

theorem lz4_container_roundtrip:
  assumes readable: "\<forall>f \<in> set F. \<exists>c. read_file e (AbsolutePath f) = Some c \<and> c \<noteq> [] \<and> length c < 2 ^ 63"
    and paths: "\<forall>f \<in> set F. CHR '':'' \<notin> set (Path f) \<and> newline \<notin> set (Path f)"
  shows "extractFilesFromStream (fst (write_files e F ([], 0))) (\<lambda>p. False) =
           (map (\<lambda>f. (Path f, the (read_file e (AbsolutePath f)))) F, []) \<and>
         (distinct (map (\<lambda>f. filepath_Base (Path f)) F) \<longrightarrow>
            (\<forall>f \<in> set F. createFileFromStructuredData (fst (write_files e F ([], 0))) (Path f) =
                            Inr (the (read_file e (AbsolutePath f)))) \<and>
            (\<forall>r d v commit res wd.
                storage r (d, Lz4Name v) = Some (LZ4Frame (fst (write_files e F ([], 0)))) \<and>
                map_of (commits_dir r) v = Some commit \<and> set (Metadata commit) = Path ` set F \<longrightarrow>
                extractFromLZ4 r (d, Lz4Name v) (res, wd) =
                  Inr (res\<lparr> RestoredFiles := RestoredFiles res @ Metadata commit \<rparr>,
                       \<lambda>p. if p \<in> Path ` set F
                            then map_of (map (\<lambda>f. (Path f, the (read_file e (AbsolutePath f)))) F) p
                            else wd p)) \<and>
            (\<forall>cm r msg commit x wd.
                fst (CreateCommit e cm r msg F) = Inr commit \<and>
                map_option Strategy (CompressionInfo commit) = Some ''lz4'' \<longrightarrow>
                map_sum id (\<lambda>(res, wd'). (set (RestoredFiles res), SkippedFiles res, ErrorFiles res, wd'))
                  (RestoreFilesFromCommit x (snd (CreateCommit e cm r msg F)) (Version commit) wd) =
                  Inr (Path ` set F, [], [],
                       \<lambda>p. if p \<in> Path ` set F
                            then map_of (map (\<lambda>f. (Path f, the (read_file e (AbsolutePath f)))) F) p
                            else wd p)))"
proof (intro conjI impI ballI allI)
  let ?stream = "fst (write_files e F ([], 0))"
  let ?entries = "map (\<lambda>f. (Path f, the (read_file e (AbsolutePath f)))) F"
  let ?g = "\<lambda>p. the (map_of ?entries p)"
  show "extractFilesFromStream ?stream (\<lambda>p. False) = (?entries, [])"
    using extract_records[OF readable paths, of "[]" "[]"]
    by (simp add: extractFilesFromStream_def write_files_fst)
  assume bases: "distinct (map (\<lambda>f. filepath_Base (Path f)) F)"
  have one: "createFileFromStructuredData ?stream (Path f) = Inr (the (read_file e (AbsolutePath f)))"
    if "f \<in> set F" for f
    using create_records[OF readable paths, of "Path f"] find_own_base[OF bases that]
    by (simp add: createFileFromStructuredData_def write_files_fst)
  show "createFileFromStructuredData ?stream (Path f) = Inr (the (read_file e (AbsolutePath f)))"
    if "f \<in> set F" for f using one[OF that] .
  have own: "map_of ?entries (Path f) = Some (the (read_file e (AbsolutePath f)))"
    if "f \<in> set F" for f
    using map_of_own_path[OF bases that] .
  have byname: "createFileFromStructuredData ?stream t = Inr (?g t)" if "t \<in> Path ` set F" for t
    using that one own by auto
  have some: "map_of ?entries p = Some (?g p)" if "p \<in> Path ` set F" for p
    using that own by auto
  show "extractFromLZ4 r (d, Lz4Name v) (res, wd) =
          Inr (res\<lparr> RestoredFiles := RestoredFiles res @ Metadata commit \<rparr>,
               \<lambda>p. if p \<in> Path ` set F then map_of ?entries p else wd p)"
    if h: "storage r (d, Lz4Name v) = Some (LZ4Frame ?stream) \<and>
           map_of (commits_dir r) v = Some commit \<and> set (Metadata commit) = Path ` set F"
    for r d v commit res wd
  proof -
    have m: "\<forall>t \<in> set (Metadata commit). createFileFromStructuredData ?stream t = Inr (?g t)"
      using h byname by auto
    have "(\<lambda>p. if p \<in> set (Metadata commit) then Some (?g p) else wd p) =
          (\<lambda>p. if p \<in> Path ` set F then map_of ?entries p else wd p)"
      using h some by (auto simp: fun_eq_iff)
    then show ?thesis
      using extractFromLZ4_all[OF _ _ m, of r d v res wd] h by simp
  qed
  show "map_sum id (\<lambda>(res, wd'). (set (RestoredFiles res), SkippedFiles res, ErrorFiles res, wd'))
          (RestoreFilesFromCommit x (snd (CreateCommit e cm r msg F)) (Version commit) wd) =
        Inr (Path ` set F, [], [],
             \<lambda>p. if p \<in> Path ` set F then map_of ?entries p else wd p)"
    if h: "fst (CreateCommit e cm r msg F) = Inr commit \<and>
           map_option Strategy (CompressionInfo commit) = Some ''lz4''"
    for cm r msg commit x wd
  proof -
    let ?r = "snd (CreateCommit e cm r msg F)"
    from h have c: "fst (CreateCommit e cm r msg F) = Inr commit"
      and s: "map_option Strategy (CompressionInfo commit) = Some ''lz4''" by auto
    note art = CreateCommit_lz4_artifact[OF c s]
    have meta: "set (Metadata commit) = Path ` set F" using CreateCommit_record(2)[OF c] .
    from s obtain ci where ci: "CompressionInfo commit = Some ci" "Strategy ci = ''lz4''" by auto
    have out: "OutputFile ci = Lz4Name (Version commit)" using art(2) ci by simp
    have m: "\<forall>t \<in> set (Metadata commit). createFileFromStructuredData ?stream t = Inr (?g t)"
      using meta byname by auto
    have eq: "(\<lambda>p. if p \<in> set (Metadata commit) then Some (?g p) else wd p) =
          (\<lambda>p. if p \<in> Path ` set F then map_of ?entries p else wd p)"
      using meta some by (auto simp: fun_eq_iff)
    have "performFastRestore x ?r commit (Version commit) wd =
           Inr (\<lparr> RestoredFiles = Metadata commit, SkippedFiles = [], ErrorFiles = [],
                   RestoreMethod = ''versions'' \<rparr>,
                \<lambda>p. if p \<in> set (Metadata commit) then Some (?g p) else wd p)"
      by (rule performFastRestore_versions[OF ci out art(1) art(3) m])
    then show ?thesis
      using art(3) meta eq by (simp add: RestoreFilesFromCommit_def)
  qed
qed

text \<open>A staged empty file is not decoded; a path with a colon is not decoded and takes
  the record after it along; of two staged files with the same base name, the second is
  restored with the contents of the first.\<close>

theorem lz4_container_counterexample:
  "extractFilesFromStream
     (fst (write_files (work_env (\<lambda>c. 5)) [empty_fig, logo_fig] ([], 0))) (\<lambda>p. False)
     = ([(''logo.fig'', ''0123456789'')], []) \<and>
   createFileFromStructuredData
     (fst (write_files (work_env (\<lambda>c. 5)) [empty_fig, logo_fig] ([], 0))) ''empty.fig''
     = Inl ''file not found in structured data'' \<and>
   extractFilesFromStream
     (fst (write_files (work_env (\<lambda>c. 5)) [colon_fig, logo_fig] ([], 0))) (\<lambda>p. False)
     = ([], []) \<and>
   createFileFromStructuredData
     (fst (write_files (work_env (\<lambda>c. 5)) [colon_fig, logo_fig] ([], 0))) ''v1:final.fig''
     = Inl ''file not found in structured data'' \<and>
   createFileFromStructuredData
     (fst (write_files dirs_env [a_x_fig, b_x_fig] ([], 0))) ''b/x.fig'' = Inr ''AAA'' \<and>
   map_sum id (\<lambda>(res, wd). (ErrorFiles res, wd ''a/x.fig'', wd ''b/x.fig''))
     (RestoreFilesFromCommit no_execute
        (snd (CreateCommit dirs_env NewCommitManager empty_repo ''init'' [a_x_fig, b_x_fig]))
        1 (\<lambda>p. None))
     = Inr ([], Some ''AAA'', Some ''AAA'')"
  by code_simp

theorem lz4_container_roundtrip_witness:
  "extractFilesFromStream
     (fst (write_files (work_env (\<lambda>c. 5)) [logo_fig, design_psd] ([], 0))) (\<lambda>p. False)
     = ([(''logo.fig'', ''0123456789''), (''design.psd'', ''0123456789'')], []) \<and>
   createFileFromStructuredData
     (fst (write_files (work_env (\<lambda>c. 5)) [logo_fig, design_psd] ([], 0))) ''design.psd''
     = Inr ''0123456789'' \<and>
   map_sum id (\<lambda>(res, wd). (set (RestoredFiles res), SkippedFiles res, ErrorFiles res,
                 wd ''logo.fig'', wd ''design.psd'', wd ''notes.txt''))
     (RestoreFilesFromCommit no_execute
        (snd (CreateCommit (work_env (\<lambda>c. 5)) NewCommitManager empty_repo ''init''
                [logo_fig, design_psd]))
        1 (\<lambda>p. None))
     = Inr ({''logo.fig'', ''design.psd''}, [], [], Some ''0123456789'', Some ''0123456789'', None)"
proof -
  let ?e = "work_env (\<lambda>c. 5)"
  let ?F = "[logo_fig, design_psd]"
  let ?X = "RestoreFilesFromCommit no_execute
        (snd (CreateCommit ?e NewCommitManager empty_repo ''init'' ?F)) 1 (\<lambda>p. None)"
  have r1: "read_file ?e (AbsolutePath logo_fig) = Some ''0123456789''"
    by code_simp
  have r2: "read_file ?e (AbsolutePath design_psd) = Some ''0123456789''"
    by code_simp
  have p1: "Path logo_fig = ''logo.fig''" and p2: "Path design_psd = ''design.psd''"
    by (simp_all add: logo_fig_def design_psd_def)
  have a: "\<forall>f \<in> set ?F.
             \<exists>c. read_file ?e (AbsolutePath f) = Some c \<and> c \<noteq> [] \<and> length c < 2 ^ 63"
    by (simp add: r1 r2)
  have b: "\<forall>f \<in> set ?F. CHR '':'' \<notin> set (Path f) \<and> newline \<notin> set (Path f)"
    by (simp add: p1 p2 newline_def)
  have d: "distinct (map (\<lambda>f. filepath_Base (Path f)) ?F)" by code_simp
  have k: "case fst (CreateCommit ?e NewCommitManager empty_repo ''init'' ?F) of
             Inl err \<Rightarrow> False
           | Inr c \<Rightarrow> Version c = 1 \<and> map_option Strategy (CompressionInfo c) = Some ''lz4''"
    by code_simp
  then obtain c where c: "fst (CreateCommit ?e NewCommitManager empty_repo ''init'' ?F) = Inr c"
    and v: "Version c = 1" and s: "map_option Strategy (CompressionInfo c) = Some ''lz4''"
    by (cases "fst (CreateCommit ?e NewCommitManager empty_repo ''init'' ?F)") simp_all
  note t = lz4_container_roundtrip[OF a b]
  note u = t[THEN conjunct2, THEN mp, OF d]
  have t1: "extractFilesFromStream (fst (write_files ?e ?F ([], 0))) (\<lambda>p. False)
     = ([(''logo.fig'', ''0123456789''), (''design.psd'', ''0123456789'')], [])"
    using t[THEN conjunct1] by (simp add: r1 r2 p1 p2)
  have m: "design_psd \<in> set ?F" by simp
  have t2: "createFileFromStructuredData (fst (write_files ?e ?F ([], 0))) ''design.psd''
     = Inr ''0123456789''"
    using u[THEN conjunct1, THEN bspec, OF m] by (simp only: r2 p2 option.sel)
  note w = u[THEN conjunct2, THEN conjunct2, rule_format, OF conjI[OF c s],
             where x = no_execute and wd = "\<lambda>p. None"]
  obtain res wd' where X: "?X = Inr (res, wd')"
    using w unfolding v by (cases ?X) auto
  have f1: "set (RestoredFiles res) = {''logo.fig'', ''design.psd''}"
    and f2: "SkippedFiles res = []" and f3: "ErrorFiles res = []"
    and f4: "wd' = (\<lambda>p. if p \<in> Path ` set ?F
                  then map_of (map (\<lambda>f. (Path f, the (read_file ?e (AbsolutePath f)))) ?F) p
                  else None)"
    using w unfolding v X by (simp_all add: p1 p2)
  have t3: "map_sum id (\<lambda>(res, wd). (set (RestoredFiles res), SkippedFiles res, ErrorFiles res,
                 wd ''logo.fig'', wd ''design.psd'', wd ''notes.txt'')) ?X
     = Inr ({''logo.fig'', ''design.psd''}, [], [], Some ''0123456789'', Some ''0123456789'', None)"
    unfolding X by (simp add: f1 f2 f3 f4 r1 r2 p1 p2)
  show ?thesis using t1 t2 t3 by (intro conjI)
qed

section \<open>Restoring committed versions\<close>

text \<open>
  C1. Version 2 is committed with two staged files, \<open>design.psd\<close> and \<open>logo.fig\<close>;
  the strategy is \<open>psd_smart\<close>, and the commit record counts both files. Restoring
  version 2 with an empty filter into an empty working directory writes
  \<open>design.psd\<close> only: the smart-delta artifact holds the PSD alone, and
  \<open>logo.fig\<close> is in no artifact of version 2.
\<close>

theorem restore_smart_delta_loses_files:
  "map_option (\<lambda>c. (FilesCount c, Metadata c, map_option Strategy (CompressionInfo c)))
     (map_of (commits_dir repo_psd_v2) 2)
     = Some (2, [''design.psd'', ''logo.fig''], Some ''psd_smart'') \<and>
   map_sum id (\<lambda>(res, wd). (RestoredFiles res, wd ''design.psd'', wd ''logo.fig''))
     (RestoreFilesFromCommit no_execute repo_psd_v2 2 (\<lambda>p. None))
     = Inr ([''design.psd''], Some ''0123456789'', None)"
  by code_simp

text \<open>
  C9. Version 2 of \<open>poster.ai\<close> is committed as a binary patch, written to
  \<open>cache/v2_from_v1.bsdiff\<close>. The path finder looks for
  \<open>objects/deltas/v2_from_v1.bsdiff\<close>, finds neither it nor a snapshot of version 2,
  and fails; so does the restore of version 2.
\<close>

theorem restore_path_misses_cache_bsdiff:
  "map_option (\<lambda>c. map_option (\<lambda>ci. (Strategy ci, OutputFile ci, CacheLevel ci)) (CompressionInfo c))
     (map_of (commits_dir repo_ai_v2) 2)
     = Some (Some (''bsdiff'', BsdiffName 2 1, ''cache'')) \<and>
   fileExists (storage repo_ai_v2) (CacheDir, BsdiffName 2 1) \<and>
   \<not> fileExists (storage repo_ai_v2) (DeltaDir, BsdiffName 2 1) \<and>
   findOptimizedRestorationPath (storage repo_ai_v2) 2 = Inl ''missing restoration data'' \<and>
   map_sum id (\<lambda>x. ()) (RestoreFilesFromCommit no_execute repo_ai_v2 2 (\<lambda>p. None))
     = Inl ''missing restoration data''"
  by code_simp

section \<open>The bound on delta chains\<close>

lemma compressWithLZ4_frame:
  "p \<noteq> (VersionsDir, Lz4Name V) \<Longrightarrow> snd (compressWithLZ4 e fs F V) p = fs p"
  by (simp add: compressWithLZ4_def Let_def split: prod.splits)

lemma compressWithLZ4_success:
  "fst (compressWithLZ4 e fs F V) = Inr res \<Longrightarrow>
   snd (compressWithLZ4 e fs F V) (VersionsDir, Lz4Name V) \<noteq> None \<and> Strategy res = ''lz4''"
  by (auto simp: compressWithLZ4_def Let_def split: prod.splits if_splits)

lemma findVersionInStorage_temp:
  "findVersionInStorage (fs((CacheDir, TempLz4Name V) \<mapsto> c)) v = findVersionInStorage fs v"
  by (simp add: findVersionInStorage_def fileExists_def)

lemma createBsdiffDelta_frame:
  "p \<noteq> (CacheDir, TempLz4Name V) \<Longrightarrow> p \<noteq> (CacheDir, BsdiffName V B) \<Longrightarrow>
   snd (createBsdiffDelta e fs F V B) p = fs p"
  by (simp add: createBsdiffDelta_def Let_def split: option.splits)

lemma createBsdiffDelta_output:
  "fst (createBsdiffDelta e fs F V B) = Inr res \<Longrightarrow> OutputFile res = BsdiffName V B"
  by (auto simp: createBsdiffDelta_def calculateCompressionResult_def Let_def
      split: option.splits)

lemma createPSDSmartDelta_frame:
  "p \<noteq> (CacheDir, TempLz4Name V) \<Longrightarrow> p \<noteq> (CacheDir, BsdiffName V B) \<Longrightarrow>
   p \<noteq> (CacheDir, PsdSmartName V B) \<Longrightarrow>
   snd (createPSDSmartDelta e fs F V B) p = fs p"
  by (auto simp: createPSDSmartDelta_def fallbackToBinaryDelta_def createBsdiffDelta_frame
      createSmartDeltaFile_def Let_def split: option.splits prod.splits sum.splits)

lemma createPSDSmartDelta_output:
  "fst (createPSDSmartDelta e fs F V B) = Inr res \<Longrightarrow>
   OutputFile res = BsdiffName V B \<or> OutputFile res = PsdSmartName V B"
  by (auto simp: createPSDSmartDelta_def fallbackToBinaryDelta_def createSmartDeltaFile_def
      Let_def dest: createBsdiffDelta_output split: option.splits prod.splits sum.splits if_splits)

lemma createDelta_frame:
  "p \<noteq> (CacheDir, TempLz4Name V) \<Longrightarrow> p \<noteq> (CacheDir, BsdiffName V B) \<Longrightarrow>
   p \<noteq> (CacheDir, PsdSmartName V B) \<Longrightarrow>
   snd (createDelta e fs F V B) p = fs p"
  by (simp add: createDelta_def createPSDSmartDelta_frame createBsdiffDelta_frame Let_def)

lemma createDelta_output:
  "fst (createDelta e fs F V B) = Inr res \<Longrightarrow>
   OutputFile res = BsdiffName V B \<or> OutputFile res = PsdSmartName V B"
  by (auto simp: createDelta_def Let_def dest: createBsdiffDelta_output createPSDSmartDelta_output
      split: if_splits)

lemma createSnapshot_frame:
  assumes "p \<notin> touched V B"
  shows "snd (createSnapshot e cm fs F V B) p = fs p"
proof -
  have p: "p \<noteq> (VersionsDir, Lz4Name V)" "p \<noteq> (CacheDir, TempLz4Name V)"
    "p \<noteq> (CacheDir, BsdiffName V B)" "p \<noteq> (CacheDir, PsdSmartName V B)"
    "p \<noteq> (DeltaDir, BsdiffName V B)" "p \<noteq> (DeltaDir, PsdSmartName V B)"
    using assms by (auto simp: touched_def)
  obtain dres fs1 where d: "createDelta e fs F V B = (dres, fs1)" by (cases "createDelta e fs F V B")
  have fs1: "fs1 p = fs p" using createDelta_frame[OF p(2,3,4), of e fs F] d by simp
  show ?thesis
  proof (cases dres)
    case (Inl err)
    then show ?thesis
      using d fs1 p(1) by (simp add: createSnapshot_def compressWithLZ4_frame)
  next
    case (Inr res)
    have out: "OutputFile res = BsdiffName V B \<or> OutputFile res = PsdSmartName V B"
      using createDelta_output[of e fs F V B res] d Inr by simp
    then have "p \<noteq> (DeltaDir, OutputFile res)" using p(5,6) by auto
    then show ?thesis
      using d Inr fs1 p(1) by (simp add: createSnapshot_def compressWithLZ4_frame)
  qed
qed

lemma createSnapshot_result:
  assumes "fst (createSnapshot e cm fs F V B) = Inr res"
  shows "snd (createSnapshot e cm fs F V B) (VersionsDir, Lz4Name V) \<noteq> None \<or>
         (1 < V \<and> \<not> shouldCreateNewSnapshot cm fs B \<and> \<not> shouldUseLZ4 F V)"
  using assms
  by (auto simp: createSnapshot_def dest: compressWithLZ4_success
      split: if_splits prod.splits sum.splits)


lemma findVersionInStorage_cong:
  assumes "\<And>p. p \<in> {(VersionsDir, Lz4Name v), (CacheDir, Lz4Name v),
                     (CacheDir, OptimizedZstdName v), (ObjectsDir, ZipName v)} \<Longrightarrow>
               fs' p = None \<Longrightarrow> fs p = None"
    and "findVersionInStorage fs' v = None"
  shows "findVersionInStorage fs v = None"
  using assms(2) assms(1)
  by (auto simp: findVersionInStorage_def fileExists_def split: if_splits)

lemma snapshot_paths_untouched:
  "v \<noteq> V \<Longrightarrow>
   p \<in> {(VersionsDir, Lz4Name v), (CacheDir, Lz4Name v),
          (CacheDir, OptimizedZstdName v), (ObjectsDir, ZipName v)} \<Longrightarrow> p \<notin> touched V B"
  by (auto simp: touched_def)

lemma delta_chain_length_mono:
  assumes "\<And>u. u \<le> v \<Longrightarrow> findVersionInStorage fs' u = None \<Longrightarrow> findVersionInStorage fs u = None"
  shows "delta_chain_length fs' v \<le> delta_chain_length fs v"
  using assms
proof (induction v)
  case 0
  show ?case by simp
next
  case (Suc v)
  have ih: "delta_chain_length fs' v \<le> delta_chain_length fs v"
    by (rule Suc.IH) (simp add: Suc.prems)
  show ?case
  proof (cases "findVersionInStorage fs' (Suc v) = None")
    case True
    then have "findVersionInStorage fs (Suc v) = None" by (intro Suc.prems) simp_all
    then show ?thesis using True ih by simp
  next
    case False
    then have "delta_chain_length fs' (Suc v) = 0" by auto
    then show ?thesis by simp
  qed
qed

lemma delta_chain_length_le_getDeltaChainLength:
  "delta_chain_length fs v \<le> getDeltaChainLength fs v"
  by (induction v) (auto simp: findVersionInStorage_def split: if_splits)

lemma delta_chain_length_snapshot:
  "fs (VersionsDir, Lz4Name v) \<noteq> None \<Longrightarrow> delta_chain_length fs v = 0"
  by (cases v) (auto simp: findVersionInStorage_def fileExists_def)

lemma max_version_ge: "m \<le> max_version cs m"
proof (induction cs arbitrary: m)
  case Nil
  show ?case by simp
next
  case (Cons a cs)
  obtain n c where a: "a = (n, c)" by (cases a)
  have "(if m < n then n else m) \<le> max_version cs (if m < n then n else m)" by (rule Cons.IH)
  then show ?case by (simp add: a split: if_splits)
qed

lemma max_version_key: "map_of cs v = Some c \<Longrightarrow> v \<le> max_version cs m"
proof (induction cs arbitrary: m)
  case Nil
  then show ?case by simp
next
  case (Cons a cs)
  obtain n c' where a: "a = (n, c')" by (cases a)
  show ?case
  proof (cases "v = n")
    case True
    have "(if m < n then n else m) \<le> max_version cs (if m < n then n else m)"
      by (rule max_version_ge)
    then show ?thesis using True by (simp add: a split: if_splits)
  next
    case False
    then have "map_of cs v = Some c" using Cons.prems by (simp add: a)
    then show ?thesis by (simp add: a Cons.IH)
  qed
qed

lemma committed_le_current:
  "map_of (commits_dir r) v = Some c \<Longrightarrow> v \<le> GetCurrentVersion r"
  by (simp add: GetCurrentVersion_def max_version_key)

text \<open>One attempt at a snapshot of the next version keeps the chains of the committed
  versions within the bound.\<close>

lemma createSnapshot_old_chain:
  assumes "v < V"
  shows "delta_chain_length (snd (createSnapshot e cm fs F V B)) v \<le> delta_chain_length fs v"
proof (rule delta_chain_length_mono)
  fix u assume u: "u \<le> v"
    and n: "findVersionInStorage (snd (createSnapshot e cm fs F V B)) u = None"
  have ne: "u \<noteq> V" using u assms by simp
  show "findVersionInStorage fs u = None"
  proof (rule findVersionInStorage_cong[OF _ n])
    fix p assume p: "p \<in> {(VersionsDir, Lz4Name u), (CacheDir, Lz4Name u),
                     (CacheDir, OptimizedZstdName u), (ObjectsDir, ZipName u)}"
      and q: "snd (createSnapshot e cm fs F V B) p = None"
    have "p \<notin> touched V B" using snapshot_paths_untouched[OF ne p] .
    then show "fs p = None" using createSnapshot_frame[of p V B e cm fs F] q by simp
  qed
qed

lemma createSnapshot_new_chain:
  assumes "fst (createSnapshot e cm fs F (Suc B) B) = Inr res"
  shows "delta_chain_length (snd (createSnapshot e cm fs F (Suc B) B)) (Suc B)
           \<le> MaxDeltaChainLength cm"
proof -
  let ?fs' = "snd (createSnapshot e cm fs F (Suc B) B)"
  from createSnapshot_result[OF assms]
  show ?thesis
  proof
    assume "?fs' (VersionsDir, Lz4Name (Suc B)) \<noteq> None"
    then have "delta_chain_length ?fs' (Suc B) = 0" by (rule delta_chain_length_snapshot)
    then show ?thesis by simp
  next
    assume d: "1 < Suc B \<and> \<not> shouldCreateNewSnapshot cm fs B \<and> \<not> shouldUseLZ4 F (Suc B)"
    then have g: "getDeltaChainLength fs B < MaxDeltaChainLength cm"
      by (simp add: shouldCreateNewSnapshot_def)
    have "delta_chain_length ?fs' (Suc B) \<le> Suc (delta_chain_length ?fs' B)" by simp
    also have "\<dots> \<le> Suc (delta_chain_length fs B)"
      using createSnapshot_old_chain[of B "Suc B" e cm fs F B] by simp
    also have "\<dots> \<le> Suc (getDeltaChainLength fs B)"
      using delta_chain_length_le_getDeltaChainLength[of fs B] by simp
    also have "\<dots> \<le> MaxDeltaChainLength cm" using g by simp
    finally show ?thesis .
  qed
qed

lemma map_of_saveCommitMetadata:
  "map_of (saveCommitMetadata c cs) v = (if v = Version c then Some c else map_of cs v)"
proof -
  have "map_of (filter (\<lambda>(n, c'). n \<noteq> k) cs) v = (if v = k then None else map_of cs v)" for k
    by (induction cs) auto
  then show ?thesis by (simp add: saveCommitMetadata_def)
qed

lemma CreateCommit_chains_bounded:
  assumes "chains_bounded cm r"
  shows "chains_bounded cm (snd (CreateCommit e cm r msg F))"
proof (cases "F = []")
  case True
  then show ?thesis using assms by (simp add: CreateCommit_def)
next
  case False
  let ?B = "GetCurrentVersion r"
  let ?V = "Suc ?B"
  let ?snap = "createSnapshot e cm (storage r) F ?V ?B"
  have old: "delta_chain_length (snd ?snap) v \<le> MaxDeltaChainLength cm"
    if "map_of (commits_dir r) v = Some c" for v c
  proof -
    have "v < ?V" using committed_le_current[OF that] by simp
    then have "delta_chain_length (snd ?snap) v \<le> delta_chain_length (storage r) v"
      by (rule createSnapshot_old_chain)
    also have "\<dots> \<le> MaxDeltaChainLength cm" using assms that by (auto simp: chains_bounded_def)
    finally show ?thesis .
  qed
  obtain x1 x2 where snap: "?snap = (x1, x2)" by (cases ?snap)
  show ?thesis
  proof (cases "fst ?snap")
    case (Inl err)
    then have "snd (CreateCommit e cm r msg F) = r\<lparr> storage := snd ?snap \<rparr>"
      using False snap by (simp add: CreateCommit_def Let_def)
    then show ?thesis using old by (auto simp: chains_bounded_def)
  next
    case (Inr res)
    then obtain commit where r': "snd (CreateCommit e cm r msg F) =
        r\<lparr> storage := snd ?snap, commits_dir := saveCommitMetadata commit (commits_dir r),
           HEAD := new_hash e \<rparr>" and ver: "Version commit = ?V"
      using False snap by (auto simp: CreateCommit_def Let_def)
    have new: "delta_chain_length (snd ?snap) ?V \<le> MaxDeltaChainLength cm"
      using createSnapshot_new_chain[OF Inr] .
    show ?thesis
      unfolding r' chains_bounded_def
      using old new by (auto simp: map_of_saveCommitMetadata ver split: if_splits)
  qed
qed

lemma optimizeToCache_chains:
  "delta_chain_length (optimizeToCache fs version result) v \<le> delta_chain_length fs v"
proof (rule delta_chain_length_mono)
  fix u assume "findVersionInStorage (optimizeToCache fs version result) u = None"
  then show "findVersionInStorage fs u = None"
    by (auto simp: optimizeToCache_def findVersionInStorage_def fileExists_def
        split: if_splits option.splits content.splits)
qed

lemma reachable_chains_bounded: "reachable cm r \<Longrightarrow> chains_bounded cm r"
proof (induction rule: reachable.induct)
  case reachable_init
  show ?case by (simp add: chains_bounded_def empty_repo_def)
next
  case (reachable_commit r e message stagedFiles)
  then show ?case by (simp add: CreateCommit_chains_bounded)
next
  case (reachable_optimize r version c result)
  show ?case
    unfolding chains_bounded_def
  proof (intro allI impI)
    fix v c' assume "map_of (commits_dir (r\<lparr>storage := optimizeToCache (storage r) version result\<rparr>)) v = Some c'"
    then have "map_of (commits_dir r) v = Some c'" by simp
    then have "delta_chain_length (storage r) v \<le> MaxDeltaChainLength cm"
      using reachable_optimize.IH by (auto simp: chains_bounded_def)
    then show "delta_chain_length (storage (r\<lparr>storage := optimizeToCache (storage r) version result\<rparr>)) v
                 \<le> MaxDeltaChainLength cm"
      using optimizeToCache_chains[of "storage r" version result v] by simp
  qed
qed


text \<open>
  C8. In every repository state reachable through the commit pipeline, the delta chain
  of every committed version, back to a version with an artifact that is not a delta, is
  at most \<open>MaxDeltaChainLength\<close> (5 by default). When the chain-length check on the
  previous version has reached the maximum, the snapshot is the LZ4 encode; and a
  snapshot whose strategy is a delta was made with the check not having reached it.
\<close>

theorem delta_chain_bounded:
  "(reachable cm r \<longrightarrow>
      (\<forall>v c. map_of (commits_dir r) v = Some c \<longrightarrow>
             delta_chain_length (storage r) v \<le> MaxDeltaChainLength cm)) \<and>
   (shouldCreateNewSnapshot cm fs prev \<longrightarrow>
      createSnapshot e cm fs F V prev = compressWithLZ4 e fs F V) \<and>
   (fst (createSnapshot e cm fs F V prev) = Inr res \<and> Strategy res \<noteq> ''lz4'' \<longrightarrow>
      1 < V \<and> \<not> shouldCreateNewSnapshot cm fs prev) \<and>
   MaxDeltaChainLength NewCommitManager = 5"
proof (intro conjI impI allI)
  fix v c assume "reachable cm r" and "map_of (commits_dir r) v = Some c"
  then show "delta_chain_length (storage r) v \<le> MaxDeltaChainLength cm"
    using reachable_chains_bounded[of cm r] by (auto simp: chains_bounded_def)
next
  assume "shouldCreateNewSnapshot cm fs prev"
  then show "createSnapshot e cm fs F V prev = compressWithLZ4 e fs F V"
    by (simp add: createSnapshot_def)
next
  assume a: "fst (createSnapshot e cm fs F V prev) = Inr res \<and> Strategy res \<noteq> ''lz4''"
  then show "1 < V" and "\<not> shouldCreateNewSnapshot cm fs prev"
    by (auto simp: createSnapshot_def dest: compressWithLZ4_success
        split: if_splits prod.splits sum.splits)
next
  show "MaxDeltaChainLength NewCommitManager = 5" by (simp add: NewCommitManager_def)
qed

theorem delta_chain_bounded_witness:
  "reachable NewCommitManager repo_psd_v2 \<and>
   map_option Version (map_of (commits_dir repo_psd_v2) 2) = Some 2 \<and>
   delta_chain_length (storage repo_psd_v2) 2 = 1 \<and>
   delta_chain_length (storage repo_psd_v2) 2 \<le> MaxDeltaChainLength NewCommitManager \<and>
   shouldCreateNewSnapshot NewCommitManager (storage_with 6) 6 \<and>
   createSnapshot (work_env (\<lambda>c. 5)) NewCommitManager (storage_with 6) [design_psd] 7 6 =
     compressWithLZ4 (work_env (\<lambda>c. 5)) (storage_with 6) [design_psd] 7"
proof -
  have reach: "reachable NewCommitManager repo_psd_v2"
    unfolding repo_psd_v2_def by (intro reachable_commit reachable_init)
  have ver: "map_option Version (map_of (commits_dir repo_psd_v2) 2) = Some 2" by code_simp
  then obtain c where c: "map_of (commits_dir repo_psd_v2) 2 = Some c" by auto
  have one: "delta_chain_length (storage repo_psd_v2) 2 = 1" by code_simp
  have cap: "shouldCreateNewSnapshot NewCommitManager (storage_with 6) 6" by code_simp
  from delta_chain_bounded[of NewCommitManager repo_psd_v2 "storage_with 6" 6
      "work_env (\<lambda>c. 5)" "[design_psd]" 7] reach c cap
  have "delta_chain_length (storage repo_psd_v2) 2 \<le> MaxDeltaChainLength NewCommitManager"
    and "createSnapshot (work_env (\<lambda>c. 5)) NewCommitManager (storage_with 6) [design_psd] 7 6 =
     compressWithLZ4 (work_env (\<lambda>c. 5)) (storage_with 6) [design_psd] 7"
    by blast+
  then show ?thesis using reach ver one cap by blast
qed

end
